theory Spec2Isabelle
  imports Complex_Main "HOL-Library.Char_ord" "HOL-Library.List_Lexorder" "HOL-Library.Multiset"
begin

section \<open>Photometric stereo of AliceVision: the model\<close>

text \<open>
  The development follows \<^verbatim>\<open>photometricStereo.cpp\<close> and \<^verbatim>\<open>photometricDataIO.cpp\<close>.

  Numbers. The source computes in IEEE single precision. A \<^verbatim>\<open>float\<close> is here a value of
  the type \<open>fl\<close>: a real number, one of the two infinities, or NaN. Rounding, overflow
  and underflow are left out (sums, products and quotients of finite values are exact),
  and so is the sign of zero: a division of a nonzero value by zero gives the infinity of
  the sign of the numerator. The operators that the specification states on numbers
  (\<open>shrink\<close>, \<open>median\<close>, the encoding of the normal map) and the mask, which is read from
  an integer format, are on real numbers.

  Matrices. An \<^verbatim>\<open>Eigen::MatrixXf\<close> is the list of its columns (Eigen's default storage
  order), a column being the list of its coefficients, all columns of one length; a matrix
  without columns is taken to have no rows. An \<^verbatim>\<open>image::Image<T>\<close> is a record of its
  number of rows, its number of columns and the pixel at row \<open>i\<close> and column \<open>j\<close>.
  Images are the decoded (and, where asked for, downscaled) contents of the files.
  Pixel counts are natural numbers: the \<^verbatim>\<open>int\<close> arithmetic on indices is taken not to
  overflow.

  Eigen. Two operations of Eigen are parameters of the model: \<open>solve a b\<close> is
  \<^verbatim>\<open>a.bdcSvd(ComputeThinU | ComputeThinV).solve(b)\<close>, and \<open>nanMax\<close> gives the value of
  \<^verbatim>\<open>maxCoeff()\<close> on coefficients one of which is NaN, which Eigen leaves open.
\<close>

subsection \<open>Values, vectors, matrices, images\<close>

type_synonym matrix = "real list list"

type_synonym rgbf = "real \<times> real \<times> real"

record 'a image =
  rows :: nat
  cols :: nat
  px :: "nat \<Rightarrow> nat \<Rightarrow> 'a"

text \<open>
  Why a run ends without a result: \<open>OutOfRange\<close> is the exception \<^verbatim>\<open>std::out_of_range\<close> of
  \<^verbatim>\<open>std::vector::at\<close>; \<open>Undefined\<close> is a violated precondition of Eigen or of the standard
  library (operands of different sizes, the maximum of an empty matrix, an access outside
  a matrix, a sort of values one of which is NaN), after which C++ promises nothing.
\<close>

datatype stop = OutOfRange | Undefined

definition vector_at :: "'a list \<Rightarrow> nat \<Rightarrow> stop + 'a" where
  "vector_at xs i = (if i < length xs then Inr (xs ! i) else Inl OutOfRange)"

definition andThen :: "stop + 'a \<Rightarrow> ('a \<Rightarrow> stop + 'b) \<Rightarrow> stop + 'b" where
  \<comment> \<open>Sequencing: a stop ends the run.\<close>
  "andThen m f = (case m of Inl e \<Rightarrow> Inl e | Inr x \<Rightarrow> f x)"

definition ncols :: "'a list list \<Rightarrow> nat" where
  "ncols m = length m"

definition nrows :: "'a list list \<Rightarrow> nat" where
  "nrows m = (case m of [] \<Rightarrow> 0 | c # _ \<Rightarrow> length c)"

definition coeff :: "'a list list \<Rightarrow> nat \<Rightarrow> nat \<Rightarrow> 'a" where
  \<comment> \<open>\<^verbatim>\<open>m(i,j)\<close>: row \<open>i\<close> of column \<open>j\<close>.\<close>
  "coeff m i j = m ! j ! i"

subsection \<open>Floating-point values\<close>

datatype fl = Fin real | PInf | MInf | NaN

type_synonym fvec = "fl list"

type_synonym fmatrix = "fl list list"

type_synonym frgb = "fl \<times> fl \<times> fl"

definition infOfSign :: "real \<Rightarrow> fl" where
  \<comment> \<open>The infinity of the sign of \<open>s\<close>; NaN when there is no sign.\<close>
  "infOfSign s = (if s = 0 then NaN else if 0 < s then PInf else MInf)"

fun signOf :: "fl \<Rightarrow> real" where
  "signOf (Fin x) = sgn x"
| "signOf PInf = 1"
| "signOf MInf = - 1"
| "signOf NaN = 0"

fun fneg :: "fl \<Rightarrow> fl" where
  "fneg (Fin x) = Fin (- x)"
| "fneg PInf = MInf"
| "fneg MInf = PInf"
| "fneg NaN = NaN"

fun fabs :: "fl \<Rightarrow> fl" where
  "fabs (Fin x) = Fin \<bar>x\<bar>"
| "fabs PInf = PInf"
| "fabs MInf = PInf"
| "fabs NaN = NaN"

fun fadd :: "fl \<Rightarrow> fl \<Rightarrow> fl" where
  "fadd (Fin x) (Fin y) = Fin (x + y)"
| "fadd NaN b = NaN"
| "fadd a NaN = NaN"
| "fadd PInf MInf = NaN"
| "fadd MInf PInf = NaN"
| "fadd PInf b = PInf"
| "fadd a PInf = PInf"
| "fadd MInf b = MInf"
| "fadd a MInf = MInf"

definition fsub :: "fl \<Rightarrow> fl \<Rightarrow> fl" where
  "fsub a b = fadd a (fneg b)"

fun fmul :: "fl \<Rightarrow> fl \<Rightarrow> fl" where
  "fmul (Fin x) (Fin y) = Fin (x * y)"
| "fmul NaN b = NaN"
| "fmul a NaN = NaN"
| "fmul a b = infOfSign (signOf a * signOf b)"

fun fdiv :: "fl \<Rightarrow> fl \<Rightarrow> fl" where
  "fdiv (Fin x) (Fin y) = (if y = 0 then infOfSign x else Fin (x / y))"
| "fdiv NaN b = NaN"
| "fdiv a NaN = NaN"
| "fdiv (Fin x) b = Fin 0"
| "fdiv a (Fin y) = infOfSign (signOf a * (if y < 0 then - 1 else 1))"
| "fdiv a b = NaN"

fun fsqrt :: "fl \<Rightarrow> fl" where
  "fsqrt (Fin x) = (if x < 0 then NaN else Fin (sqrt x))"
| "fsqrt PInf = PInf"
| "fsqrt MInf = NaN"
| "fsqrt NaN = NaN"

fun fless :: "fl \<Rightarrow> fl \<Rightarrow> bool" where
  \<comment> \<open>\<^verbatim>\<open>a < b\<close>: false as soon as one side is NaN.\<close>
  "fless (Fin x) (Fin y) = (x < y)"
| "fless NaN b = False"
| "fless a NaN = False"
| "fless a MInf = False"
| "fless PInf b = False"
| "fless a b = True"

definition stdmax :: "fl \<Rightarrow> fl \<Rightarrow> fl" where
  \<comment> \<open>\<^verbatim>\<open>std::max(a, b)\<close>, which is \<^verbatim>\<open>(a < b) ? b : a\<close>.\<close>
  "stdmax a b = (if fless a b then b else a)"

definition fsum :: "fvec \<Rightarrow> fl" where
  "fsum v = foldr fadd v (Fin 0)"

definition fnorm :: "fvec \<Rightarrow> fl" where
  \<comment> \<open>\<^verbatim>\<open>norm()\<close>: the square root of the sum of the squares of the coefficients.\<close>
  "fnorm v = fsqrt (fsum (map (\<lambda>x. fmul x x) v))"

definition frobenius :: "fmatrix \<Rightarrow> fl" where
  \<comment> \<open>\<^verbatim>\<open>norm()\<close> of a matrix.\<close>
  "frobenius m = fnorm (concat m)"

subsection \<open>Matrix operations, with the size preconditions of Eigen\<close>

definition cwise :: "(fl \<Rightarrow> fl \<Rightarrow> fl) \<Rightarrow> fmatrix \<Rightarrow> fmatrix \<Rightarrow> stop + fmatrix" where
  \<comment> \<open>A coefficient-wise operation on two matrices of the same size.\<close>
  "cwise f a b =
     (if map length a = map length b then Inr (map2 (map2 f) a b) else Inl Undefined)"

definition madd :: "fmatrix \<Rightarrow> fmatrix \<Rightarrow> stop + fmatrix" where
  "madd a b = cwise fadd a b"

definition msub :: "fmatrix \<Rightarrow> fmatrix \<Rightarrow> stop + fmatrix" where
  "msub a b = cwise fsub a b"

definition smul :: "fl \<Rightarrow> fmatrix \<Rightarrow> fmatrix" where
  "smul c a = map (map (fmul c)) a"

definition sdiv :: "fmatrix \<Rightarrow> fl \<Rightarrow> fmatrix" where
  "sdiv a c = map (map (\<lambda>x. fdiv x c)) a"

definition mat_vec :: "fmatrix \<Rightarrow> fvec \<Rightarrow> stop + fvec" where
  \<comment> \<open>The product of a matrix and a vector with as many coefficients as the matrix
      has columns: row \<open>i\<close> is the sum of the products \<open>a(i,k) * v(k)\<close>.\<close>
  "mat_vec a v =
     (if ncols a = length v
      then Inr (map (\<lambda>i. fsum (map (\<lambda>k. fmul (coeff a i k) (v ! k)) [0..<ncols a]))
                    [0..<nrows a])
      else Inl Undefined)"

fun mapStop :: "('a \<Rightarrow> stop + 'b) \<Rightarrow> 'a list \<Rightarrow> stop + 'b list" where
  \<comment> \<open>The results for the elements of a list, in order, up to the first stop.\<close>
  "mapStop f [] = Inr []"
| "mapStop f (x # xs) =
     andThen (f x) (\<lambda>y. andThen (mapStop f xs) (\<lambda>ys. Inr (y # ys)))"

definition mmul :: "fmatrix \<Rightarrow> fmatrix \<Rightarrow> stop + fmatrix" where
  "mmul a b = mapStop (mat_vec a) b"

definition bdcSvdSolve :: "(fmatrix \<Rightarrow> fmatrix \<Rightarrow> fmatrix) \<Rightarrow> fmatrix \<Rightarrow> fmatrix \<Rightarrow> stop + fmatrix" where
  \<comment> \<open>\<^verbatim>\<open>a.bdcSvd(...).solve(b)\<close>: the right-hand side has as many rows as \<open>a\<close>.\<close>
  "bdcSvdSolve solve a b =
     (if list_all (\<lambda>c. length c = nrows a) b then Inr (solve a b) else Inl Undefined)"

definition maxCoeff :: "(fvec \<Rightarrow> fl) \<Rightarrow> fmatrix \<Rightarrow> stop + fl" where
  \<comment> \<open>\<^verbatim>\<open>maxCoeff()\<close>: not on an empty matrix; the value is open when a coefficient is
      NaN (\<open>nanMax\<close>).\<close>
  "maxCoeff nanMax m =
     (if concat m = [] then Inl Undefined
      else if NaN \<in> set (concat m) then Inr (nanMax (concat m))
      else Inr (fold (\<lambda>x acc. stdmax acc x) (tl (concat m)) (hd (concat m))))"

definition propagateNaN :: "fvec \<Rightarrow> fl" where
  \<comment> \<open>One \<open>nanMax\<close>: the maximum of coefficients one of which is NaN is NaN.\<close>
  "propagateNaN v = NaN"

definition divideByMax :: "(fvec \<Rightarrow> fl) \<Rightarrow> fmatrix \<Rightarrow> stop + fmatrix" where
  \<comment> \<open>\<^verbatim>\<open>m = m / m.maxCoeff()\<close>\<close>
  "divideByMax nanMax m = andThen (maxCoeff nanMax m) (\<lambda>mx. Inr (sdiv m mx))"

subsection \<open>The shrink and median operators\<close>

definition shrink_coeff :: "real \<Rightarrow> real \<Rightarrow> real" where
  \<comment> \<open>The body of the two loops of \<^verbatim>\<open>shrink\<close>, for one coefficient \<open>x = mat(i,j)\<close>.\<close>
  "shrink_coeff x rho =
     (if x > 0 then max (\<bar>x\<bar> - rho) 0 else - max (\<bar>x\<bar> - rho) 0)"

definition shrink :: "matrix \<Rightarrow> real \<Rightarrow> matrix \<Rightarrow> matrix" where
  \<comment> \<open>The loops run over the rows and columns of \<open>E\<close> and overwrite every coefficient.\<close>
  "shrink mat rho E =
     map (\<lambda>j. map (\<lambda>i. shrink_coeff (coeff mat i j) rho) [0..<nrows E]) [0..<ncols E]"

definition median :: "real list \<Rightarrow> real option" where
  \<comment> \<open>\<open>d\<close> is the coefficient array of the argument. \<open>None\<close>: the read \<^verbatim>\<open>aux(0)\<close> of an
      empty array.\<close>
  "median d =
     (let aux = sort d; middle = length aux div 2
      in if length aux = 0 then None
         else if length aux mod 2 = 0
           then Some (aux ! ((length aux - 1) div 2) + aux ! ((length aux + 1) div 2))
           else Some (aux ! middle))"

definition median_spec :: "real list \<Rightarrow> real" where
  \<comment> \<open>The median as the specification words it: the middle sorted element, or the
      mean of the two middle sorted elements.\<close>
  "median_spec d =
     (let s = sort d; n = length s
      in if odd n then s ! (n div 2) else (s ! (n div 2 - 1) + s ! (n div 2)) / 2)"

fun shrink_fl :: "fl \<Rightarrow> real \<Rightarrow> fl" where
  \<comment> \<open>The body of the loops of \<^verbatim>\<open>shrink\<close> on any \<^verbatim>\<open>float\<close>. At plus infinity the test
      \<^verbatim>\<open>mat(i,j) > 0\<close> holds and the maximum is infinite; at minus infinity and at NaN it
      fails, and \<^verbatim>\<open>std::max(NaN, 0)\<close> is its first argument.\<close>
  "shrink_fl (Fin x) rho = Fin (shrink_coeff x rho)"
| "shrink_fl PInf rho = PInf"
| "shrink_fl MInf rho = MInf"
| "shrink_fl NaN rho = NaN"

definition shrinkF :: "fmatrix \<Rightarrow> real \<Rightarrow> fmatrix \<Rightarrow> stop + fmatrix" where
  \<comment> \<open>\<^verbatim>\<open>shrink(mat, rho, E)\<close> in the robust loop: the loops run over the rows and columns
      of \<open>E\<close> and read \<open>mat\<close> there.\<close>
  "shrinkF mat rho E =
     (if list_all (\<lambda>j. j < ncols mat \<and> nrows E \<le> length (mat ! j)) [0..<ncols E]
      then Inr (map (\<lambda>j. map (\<lambda>i. shrink_fl (coeff mat i j) rho) [0..<nrows E]) [0..<ncols E])
      else Inl Undefined)"

fun insertF :: "fl \<Rightarrow> fvec \<Rightarrow> fvec" where
  "insertF x [] = [x]"
| "insertF x (y # ys) = (if fless y x then y # insertF x ys else x # y # ys)"

definition sortF :: "fvec \<Rightarrow> fvec" where
  \<comment> \<open>The ascending arrangement of values none of which is NaN.\<close>
  "sortF v = foldr insertF v []"

definition medianF :: "fvec \<Rightarrow> stop + fl" where
  \<comment> \<open>\<^verbatim>\<open>median\<close> on any \<^verbatim>\<open>float\<close>s: \<^verbatim>\<open>std::sort\<close> asks for a strict weak order, which
      \<^verbatim>\<open><\<close> is not when a value is NaN.\<close>
  "medianF d =
     (if d = [] \<or> NaN \<in> set d then Inl Undefined
      else let aux = sortF d; middle = length aux div 2
           in if length aux mod 2 = 0
              then Inr (fadd (aux ! ((length aux - 1) div 2)) (aux ! ((length aux + 1) div 2)))
              else Inr (aux ! middle))"

subsection \<open>Pixel selection\<close>

definition hasMask :: "real image \<Rightarrow> bool" where
  "hasMask maskIm = (\<not> (rows maskIm = 1 \<and> cols maskIm = 1))"

definition getIndMask :: "real image \<Rightarrow> nat list" where
  "getIndMask maskIm =
     concat (map (\<lambda>j. map (\<lambda>i. j * rows maskIm + i)
                        (filter (\<lambda>i. px maskIm i j > 0.7) [0..<rows maskIm]))
                 [0..<cols maskIm])"

definition currentIdx :: "bool \<Rightarrow> nat list \<Rightarrow> nat \<Rightarrow> stop + nat" where
  \<comment> \<open>\<^verbatim>\<open>if(hasMask) currentIdx = indexes.at(i); else currentIdx = i;\<close>\<close>
  "currentIdx hm indexes i = (if hm then vector_at indexes i else Inr i)"

definition pictDims :: "'a image list \<Rightarrow> real image \<Rightarrow> stop + (nat \<times> nat)" where
  \<comment> \<open>\<open>(pictRows, pictCols)\<close>: of the mask, or of the first picture when there is none.\<close>
  "pictDims imageList maskIm =
     (if hasMask maskIm then Inr (rows maskIm, cols maskIm)
      else case vector_at imageList 0 of
             Inl e \<Rightarrow> Inl e
           | Inr imageFloat \<Rightarrow> Inr (rows imageFloat, cols imageFloat))"

definition maskSizeOf :: "real image \<Rightarrow> nat \<times> nat \<Rightarrow> nat" where
  "maskSizeOf maskIm dims =
     (if hasMask maskIm then length (getIndMask maskIm) else fst dims * snd dims)"

fun visited :: "bool \<Rightarrow> nat list \<Rightarrow> nat list \<Rightarrow> stop + nat list" where
  \<comment> \<open>The values \<open>currentIdx\<close> takes in a loop \<^verbatim>\<open>for (i = 0; i < maskSize; ++i)\<close>,
      in the order of the loop; the second list is the list of the values of \<open>i\<close>.\<close>
  "visited hm indexes [] = Inr []"
| "visited hm indexes (i # is) =
     (case currentIdx hm indexes i of
        Inl e \<Rightarrow> Inl e
      | Inr c \<Rightarrow> (case visited hm indexes is of Inl e \<Rightarrow> Inl e | Inr cs \<Rightarrow> Inr (c # cs)))"

definition activePixels :: "real image \<Rightarrow> nat \<times> nat \<Rightarrow> stop + nat list" where
  "activePixels maskIm dims =
     visited (hasMask maskIm) (if hasMask maskIm then getIndMask maskIm else [])
       [0..<maskSizeOf maskIm dims]"

subsection \<open>Observation matrices\<close>

definition imageSub :: "frgb image \<Rightarrow> frgb image \<Rightarrow> stop + frgb image" where
  \<comment> \<open>\<^verbatim>\<open>imageFloat - imageAmbiant\<close>\<close>
  "imageSub a b =
     (if rows a = rows b \<and> cols a = cols b
      then Inr \<lparr>rows = rows a, cols = cols a,
                px = (\<lambda>i j. case (px a i j, px b i j) of
                               ((r, g, bl), (r', g', bl')) \<Rightarrow>
                                 (fsub r r', fsub g g', fsub bl bl'))\<rparr>
      else Inl Undefined)"

definition intensityScaling :: "frgb \<Rightarrow> frgb image \<Rightarrow> frgb image" where
  "intensityScaling intensities imageToScale =
     (case intensities of (ir, ig, ib) \<Rightarrow>
        imageToScale\<lparr>px := (\<lambda>i j. case px imageToScale i j of
                                     (r, g, b) \<Rightarrow> (fdiv r ir, fdiv g ig, fdiv b ib))\<rparr>)"

definition image2PsMatrix :: "frgb image \<Rightarrow> real image \<Rightarrow> fmatrix" where
  \<comment> \<open>Column \<open>index\<close> of \<open>imageOut\<close> receives the three channels of the pixel.\<close>
  "image2PsMatrix imageIn maskIm =
     concat (map (\<lambda>j. map (\<lambda>i. case px imageIn i j of (r, g, b) \<Rightarrow> [r, g, b])
                        (filter (\<lambda>i. \<not> hasMask maskIm \<or> px maskIm i j > 0.7) [0..<rows imageIn]))
                 [0..<cols imageIn])"

definition fillPsMatrix :: "nat \<times> nat \<Rightarrow> frgb image \<Rightarrow> real image \<Rightarrow> stop + fmatrix" where
  \<comment> \<open>The call \<^verbatim>\<open>image2PsMatrix(imageFloat, mask, currentPicture)\<close> on the matrix of
      \<open>maskSize\<close> columns: within the matrix (and the mask) only for a picture of the
      rows and columns that \<open>maskSize\<close> was computed for.\<close>
  "fillPsMatrix dims imageIn maskIm =
     (if (rows imageIn, cols imageIn) = dims then Inr (image2PsMatrix imageIn maskIm)
      else Inl Undefined)"

definition grayRow :: "fmatrix \<Rightarrow> fmatrix" where
  \<comment> \<open>The one-row matrix \<^verbatim>\<open>row0 * 0.2126 + row1 * 0.7152 + row2 * 0.0722\<close>.\<close>
  "grayRow currentPicture =
     map (\<lambda>c. [fadd (fadd (fmul (c ! 0) (Fin 0.2126)) (fmul (c ! 1) (Fin 0.7152)))
                     (fmul (c ! 2) (Fin 0.0722))])
         currentPicture"

definition stackBlock :: "fmatrix \<Rightarrow> fmatrix \<Rightarrow> fmatrix" where
  \<comment> \<open>The rows of the block are written below the rows written so far.\<close>
  "stackBlock m block = map2 (@) m block"

definition processPicture ::
  "frgb list \<Rightarrow> real image \<Rightarrow> frgb image option \<Rightarrow> nat \<times> nat \<Rightarrow> nat \<Rightarrow> frgb image
     \<Rightarrow> stop + fmatrix" where
  \<comment> \<open>One run of the loop over the pictures, up to \<open>currentPicture\<close>.\<close>
  "processPicture intList maskIm ambiant dims i imageFloat =
     (case (case ambiant of None \<Rightarrow> Inr imageFloat
                          | Some imageAmbiant \<Rightarrow> imageSub imageFloat imageAmbiant) of
        Inl e \<Rightarrow> Inl e
      | Inr subtracted \<Rightarrow>
          (case vector_at intList i of
             Inl e \<Rightarrow> Inl e
           | Inr intensities \<Rightarrow>
               fillPsMatrix dims (intensityScaling intensities subtracted) maskIm))"

fun readPictures ::
  "frgb list \<Rightarrow> real image \<Rightarrow> frgb image option \<Rightarrow> nat \<times> nat \<Rightarrow> nat \<Rightarrow> frgb image list
     \<Rightarrow> fmatrix \<times> fmatrix \<Rightarrow> stop + (fmatrix \<times> fmatrix)" where
  \<comment> \<open>The loop \<^verbatim>\<open>for (i = 0; i < imageList.size(); ++i)\<close>, from index \<open>i\<close> on.\<close>
  "readPictures intList maskIm ambiant dims i [] acc = Inr acc"
| "readPictures intList maskIm ambiant dims i (imageFloat # rest) (imMat, imMat_gray) =
     (case processPicture intList maskIm ambiant dims i imageFloat of
        Inl e \<Rightarrow> Inl e
      | Inr currentPicture \<Rightarrow>
          readPictures intList maskIm ambiant dims (Suc i) rest
            (stackBlock imMat currentPicture, stackBlock imMat_gray (grayRow currentPicture)))"

definition rawObservations ::
  "frgb image list \<Rightarrow> frgb list \<Rightarrow> real image \<Rightarrow> frgb image option
     \<Rightarrow> stop + (fmatrix \<times> fmatrix)" where
  \<comment> \<open>\<open>(imMat, imMat_gray)\<close> after the loop over the pictures. \<open>ambiant\<close> is \<open>Some\<close> of
      the decoded picture when the stem of \<open>pathToAmbiant\<close> contains "ambiant".\<close>
  "rawObservations imageList intList maskIm ambiant =
     andThen (pictDims imageList maskIm) (\<lambda>dims.
       readPictures intList maskIm ambiant dims 0 imageList
         (replicate (maskSizeOf maskIm dims) [], replicate (maskSizeOf maskIm dims) []))"

definition observationMatrices ::
  "(fvec \<Rightarrow> fl) \<Rightarrow> frgb image list \<Rightarrow> frgb list \<Rightarrow> real image \<Rightarrow> frgb image option
     \<Rightarrow> stop + (fmatrix \<times> fmatrix)" where
  \<comment> \<open>\<open>(imMat, imMat_gray)\<close> after the two normalisations.\<close>
  "observationMatrices nanMax imageList intList maskIm ambiant =
     (case rawObservations imageList intList maskIm ambiant of
        Inl e \<Rightarrow> Inl e
      | Inr (imMat, imMat_gray) \<Rightarrow>
          andThen (divideByMax nanMax imMat) (\<lambda>imMat'.
          andThen (divideByMax nanMax imMat_gray) (\<lambda>imMat_gray'.
            Inr (imMat', imMat_gray'))))"

subsection \<open>Normal estimation and the robust loop\<close>

type_synonym solver = "fmatrix \<Rightarrow> fmatrix \<Rightarrow> fmatrix"

definition zeros :: "nat \<Rightarrow> nat \<Rightarrow> fmatrix" where
  \<comment> \<open>\<^verbatim>\<open>Eigen::MatrixXf::Zero(r, c)\<close>\<close>
  "zeros r c = replicate c (replicate r (Fin 0))"

definition normalizeCol :: "fvec \<Rightarrow> fvec" where
  \<comment> \<open>\<^verbatim>\<open>M_channel.col(i)/M_channel.col(i).norm()\<close>\<close>
  "normalizeCol v = map (\<lambda>x. fdiv x (fnorm v)) v"

fun storeNormals ::
  "bool \<Rightarrow> nat list \<Rightarrow> fmatrix \<Rightarrow> nat list \<Rightarrow> fmatrix \<Rightarrow> stop + fmatrix" where
  \<comment> \<open>The loop \<^verbatim>\<open>for (i = 0; i < maskSize; ++i)\<close> that writes the columns of
      \<open>normalsVect\<close>; the list is the list of the values of \<open>i\<close> still to run. A column
      is assigned a vector of its own size.\<close>
  "storeNormals hm indexes M [] normalsVect = Inr normalsVect"
| "storeNormals hm indexes M (i # is) normalsVect =
     (case currentIdx hm indexes i of
        Inl e \<Rightarrow> Inl e
      | Inr c \<Rightarrow>
          if c < ncols normalsVect \<and> i < ncols M \<and> length (M ! i) = length (normalsVect ! c)
          then storeNormals hm indexes M is (normalsVect[c := normalizeCol (M ! i)])
          else Inl Undefined)"

definition mu :: real where
  "mu = 0.1"

definition max_iterations :: nat where
  "max_iterations = 1000"

definition epsilon :: real where
  "epsilon = 0.001"

type_synonym admm = "fmatrix \<times> fmatrix \<times> fmatrix"

definition robustStep :: "solver \<Rightarrow> fmatrix \<Rightarrow> fmatrix \<Rightarrow> admm \<Rightarrow> stop + admm" where
  \<comment> \<open>The updates of \<open>M\<close>, \<open>E\<close> and \<open>W\<close> in one run of the body, on \<open>(M_channel, E, W)\<close>.
      \<open>residual\<close> is \<^verbatim>\<open>lightMat*M_channel-imMat_gray\<close>, which the source computes twice.\<close>
  "robustStep solve lightMat imMat_gray s =
     (case s of (M_kminus1, E, W) \<Rightarrow>
        andThen (madd imMat_gray E) (\<lambda>sum.
        andThen (msub sum (sdiv W (Fin mu))) (\<lambda>newImMat.
        andThen (bdcSvdSolve solve lightMat newImMat) (\<lambda>M_channel.
        andThen (mmul lightMat M_channel) (\<lambda>product.
        andThen (msub product imMat_gray) (\<lambda>residual.
        andThen (madd residual (sdiv W (Fin mu))) (\<lambda>mat.
        andThen (shrinkF mat (1 / mu) E) (\<lambda>E'.
        andThen (msub residual E') (\<lambda>difference.
        andThen (madd W (smul (Fin mu) difference)) (\<lambda>W'.
          Inr (M_channel, E', W')))))))))))"

definition ecart_relatif :: "fmatrix \<Rightarrow> fmatrix \<Rightarrow> stop + fl" where
  \<comment> \<open>\<^verbatim>\<open>ecart = M_kminus1 - M_channel; ecart_relatif = ecart.norm()/M_channel.norm()\<close>\<close>
  "ecart_relatif M_kminus1 M_channel =
     andThen (msub M_kminus1 M_channel) (\<lambda>ecart.
       Inr (fdiv (frobenius ecart) (frobenius M_channel)))"

definition robustBody :: "solver \<Rightarrow> fmatrix \<Rightarrow> fmatrix \<Rightarrow> admm \<Rightarrow> stop + (admm \<times> fl)" where
  \<comment> \<open>One run of the body up to the convergence test: the new matrices and
      \<open>ecart_relatif\<close>.\<close>
  "robustBody solve lightMat imMat_gray s =
     andThen (robustStep solve lightMat imMat_gray s) (\<lambda>s'.
     andThen (ecart_relatif (fst s) (fst s')) (\<lambda>e. Inr (s', e)))"

function robustLoop ::
  "solver \<Rightarrow> fmatrix \<Rightarrow> fmatrix \<Rightarrow> nat \<Rightarrow> admm \<Rightarrow> stop + (nat \<times> bool \<times> admm)" where
  \<comment> \<open>The loop \<^verbatim>\<open>for (k = 0; k < max_iterations; ++k)\<close> from index \<open>k\<close> on. The result is
      the index at which the loop is left, whether it is left by \<^verbatim>\<open>break\<close> (the source
      then prints the index and "Convergence"), and the matrices.\<close>
  "robustLoop solve lightMat imMat_gray k s =
     (if k < max_iterations
      then case robustBody solve lightMat imMat_gray s of
             Inl e \<Rightarrow> Inl e
           | Inr (s', e) \<Rightarrow>
               if k > 10 \<and> fless e (Fin epsilon) then Inr (k, True, s')
               else robustLoop solve lightMat imMat_gray (Suc k) s'
      else Inr (k, False, s))"
  by pat_completeness auto
termination
  by (relation "measure (\<lambda>(solve, lightMat, imMat_gray, k, s). max_iterations - k)") auto

declare robustLoop.simps [simp del]

fun stateAt :: "solver \<Rightarrow> fmatrix \<Rightarrow> fmatrix \<Rightarrow> admm \<Rightarrow> nat \<Rightarrow> stop + admm" where
  \<comment> \<open>The matrices after \<open>n\<close> runs of the body from \<open>s0\<close>, were the loop not left.\<close>
  "stateAt solve lightMat imMat_gray s0 0 = Inr s0"
| "stateAt solve lightMat imMat_gray s0 (Suc n) =
     andThen (stateAt solve lightMat imMat_gray s0 n) (\<lambda>s.
     andThen (robustBody solve lightMat imMat_gray s) (\<lambda>(s', e). Inr s'))"

definition relativeChange :: "matrix \<Rightarrow> matrix \<Rightarrow> fl" where
  \<comment> \<open>The Frobenius norm of \<open>a - b\<close> relative to the Frobenius norm of \<open>b\<close>, for two
      matrices of real numbers of the same size, as a \<^verbatim>\<open>float\<close>.\<close>
  "relativeChange a b =
     (let change = sqrt (\<Sum>x\<leftarrow>concat (map2 (map2 (-)) a b). x * x);
          size = sqrt (\<Sum>x\<leftarrow>concat b. x * x)
      in if size = 0 then (if change = 0 then NaN else PInf) else Fin (change / size))"

definition robustM :: "solver \<Rightarrow> fmatrix \<Rightarrow> fmatrix \<Rightarrow> fmatrix \<Rightarrow> stop + fmatrix" where
  \<comment> \<open>\<open>M_channel\<close> after the robust loop, started from the least-squares solution.\<close>
  "robustM solve lightMat imMat_gray M_channel =
     andThen (mmul lightMat M_channel) (\<lambda>product.
     andThen (msub product imMat_gray) (\<lambda>E.
     andThen (robustLoop solve lightMat imMat_gray 0 (M_channel, E, zeros (nrows E) (ncols E)))
       (\<lambda>(k, stopped, s). Inr (fst s))))"

definition finalM :: "solver \<Rightarrow> bool \<Rightarrow> fmatrix \<Rightarrow> fmatrix \<Rightarrow> stop + fmatrix" where
  \<comment> \<open>\<open>M_channel\<close> when the normals are last written.\<close>
  "finalM solve isRobust lightMat imMat_gray =
     andThen (bdcSvdSolve solve lightMat imMat_gray) (\<lambda>M_channel.
       if isRobust then robustM solve lightMat imMat_gray M_channel else Inr M_channel)"

definition solveOrthonormal :: solver where
  \<comment> \<open>The minimum-norm least-squares solution of \<open>a x = b\<close> when the rows of \<open>a\<close>
      are orthonormal: the product of the transpose of \<open>a\<close> and \<open>b\<close>. It is what
      \<^verbatim>\<open>a.bdcSvd(...).solve(b)\<close> computes for such \<open>a\<close>, rounding apart.\<close>
  "solveOrthonormal a b =
     map (\<lambda>c. map (\<lambda>k. fsum (map (\<lambda>i. fmul (coeff a i k) (c ! i)) [0..<nrows a]))
                   [0..<ncols a]) b"

subsection \<open>Albedo\<close>

definition pixelValues_channel :: "nat \<Rightarrow> nat \<Rightarrow> fmatrix \<Rightarrow> fmatrix" where
  \<comment> \<open>Row \<open>i\<close> of \<open>pixelValues_channel\<close> is row \<open>ch + 3*i\<close> of \<open>imMat\<close>, for each of the
      \<open>n\<close> pictures.\<close>
  "pixelValues_channel n ch imMat = map (\<lambda>c. map (\<lambda>i. c ! (ch + 3 * i)) [0..<n]) imMat"

definition robustAlbedo :: "fmatrix \<Rightarrow> fvec \<Rightarrow> fvec \<Rightarrow> stop + fl" where
  \<comment> \<open>The median of \<^verbatim>\<open>currentI.cwiseProduct(currentShading.cwiseInverse())\<close> with
      \<^verbatim>\<open>currentShading = lightMat*normalsVect.col(currentIdx)\<close>.\<close>
  "robustAlbedo lightMat currentI normal =
     andThen (mat_vec lightMat normal) (\<lambda>currentShading.
       if length currentI = length currentShading
       then medianF (map2 fmul currentI (map (fdiv (Fin 1)) currentShading))
       else Inl Undefined)"

fun storeAlbedo ::
  "bool \<Rightarrow> nat list \<Rightarrow> (nat \<Rightarrow> nat \<Rightarrow> stop + fl) \<Rightarrow> nat \<Rightarrow> nat list \<Rightarrow> fmatrix
     \<Rightarrow> stop + fmatrix" where
  \<comment> \<open>The loop \<^verbatim>\<open>for (i = 0; i < maskSize; ++i)\<close> that writes row \<open>ch\<close> of \<open>albedoVect\<close>;
      \<open>value i currentIdx\<close> is the value found for the pixel.\<close>
  "storeAlbedo hm indexes value ch [] albedoVect = Inr albedoVect"
| "storeAlbedo hm indexes value ch (i # is) albedoVect =
     (case currentIdx hm indexes i of
        Inl e \<Rightarrow> Inl e
      | Inr c \<Rightarrow>
          if c < ncols albedoVect \<and> ch < length (albedoVect ! c)
          then andThen (value i c) (\<lambda>v.
                 storeAlbedo hm indexes value ch is (albedoVect[c := (albedoVect ! c)[ch := v]]))
          else Inl Undefined)"

definition robustChannel ::
  "nat \<Rightarrow> fmatrix \<Rightarrow> fmatrix \<Rightarrow> fmatrix \<Rightarrow> bool \<Rightarrow> nat list \<Rightarrow> nat \<Rightarrow> nat \<Rightarrow> fmatrix
     \<Rightarrow> stop + fmatrix" where
  \<comment> \<open>One run of the loop over the channels in robust mode.\<close>
  "robustChannel n lightMat imMat normalsVect hm indexes maskSize ch albedoVect =
     storeAlbedo hm indexes
       (\<lambda>i c. if i < ncols imMat \<and> c < ncols normalsVect
              then robustAlbedo lightMat (pixelValues_channel n ch imMat ! i) (normalsVect ! c)
              else Inl Undefined)
       ch [0..<maskSize] albedoVect"

definition plainChannel ::
  "solver \<Rightarrow> nat \<Rightarrow> fmatrix \<Rightarrow> fmatrix \<Rightarrow> bool \<Rightarrow> nat list \<Rightarrow> nat \<Rightarrow> nat \<Rightarrow> fmatrix
     \<Rightarrow> stop + fmatrix" where
  \<comment> \<open>One run of the loop over the channels otherwise: the norm of each column of the
      least-squares solution for the channel.\<close>
  "plainChannel solve n lightMat imMat hm indexes maskSize ch albedoVect =
     andThen (bdcSvdSolve solve lightMat (pixelValues_channel n ch imMat)) (\<lambda>M_channel.
       storeAlbedo hm indexes
         (\<lambda>i c. if i < ncols M_channel then Inr (fnorm (M_channel ! i)) else Inl Undefined)
         ch [0..<maskSize] albedoVect)"

fun channels :: "(nat \<Rightarrow> fmatrix \<Rightarrow> stop + fmatrix) \<Rightarrow> nat list \<Rightarrow> fmatrix \<Rightarrow> stop + fmatrix" where
  \<comment> \<open>The loop \<^verbatim>\<open>for (ch = 0; ch < 3; ++ch)\<close>.\<close>
  "channels f [] albedoVect = Inr albedoVect"
| "channels f (ch # chs) albedoVect = andThen (f ch albedoVect) (channels f chs)"

subsection \<open>The solve\<close>

definition estimation ::
  "solver \<Rightarrow> bool \<Rightarrow> nat \<Rightarrow> fmatrix \<Rightarrow> fmatrix \<Rightarrow> fmatrix \<Rightarrow> bool \<Rightarrow> nat list \<Rightarrow> nat \<Rightarrow> nat
     \<Rightarrow> stop + (fmatrix \<times> fmatrix)" where
  \<comment> \<open>\<open>(normalsVect, albedoVect)\<close> before the normalisation of the albedo, from the
      observation matrices of \<open>n\<close> pictures: one column for each of the
      \<open>nPix = pictRows * pictCols\<close> pixels.\<close>
  "estimation solve isRobust n lightMat imMat imMat_gray hm indexes maskSize nPix =
     andThen (bdcSvdSolve solve lightMat imMat_gray) (\<lambda>M_channel.
     andThen (storeNormals hm indexes M_channel [0..<maskSize] (zeros (ncols lightMat) nPix))
       (\<lambda>normalsVect.
         if isRobust
         then andThen (robustM solve lightMat imMat_gray M_channel) (\<lambda>M_robust.
              andThen (storeNormals hm indexes M_robust [0..<maskSize] normalsVect)
                (\<lambda>normalsVect'.
              andThen (channels (robustChannel n lightMat imMat normalsVect' hm indexes maskSize)
                         [0, 1, 2] (zeros 3 nPix))
                (\<lambda>albedoVect. Inr (normalsVect', albedoVect))))
         else andThen (channels (plainChannel solve n lightMat imMat hm indexes maskSize)
                         [0, 1, 2] (zeros 3 nPix))
                (\<lambda>albedoVect. Inr (normalsVect, albedoVect))))"

definition vectors ::
  "solver \<Rightarrow> (fvec \<Rightarrow> fl) \<Rightarrow> frgb image list \<Rightarrow> frgb list \<Rightarrow> fmatrix \<Rightarrow> real image
     \<Rightarrow> frgb image option \<Rightarrow> bool \<Rightarrow> stop + (fmatrix \<times> fmatrix)" where
  \<comment> \<open>\<open>(normalsVect, albedoVect)\<close> before the normalisation of the albedo, from the
      decoded pictures.\<close>
  "vectors solve nanMax imageList intList lightMat maskIm ambiant isRobust =
     andThen (pictDims imageList maskIm) (\<lambda>dims.
     andThen (observationMatrices nanMax imageList intList maskIm ambiant)
       (\<lambda>(imMat, imMat_gray).
         estimation solve isRobust (length imageList) lightMat imMat imMat_gray (hasMask maskIm)
           (if hasMask maskIm then getIndMask maskIm else [])
           (maskSizeOf maskIm dims) (fst dims * snd dims)))"

definition reshapeInImage :: "fmatrix \<Rightarrow> nat \<times> nat \<Rightarrow> stop + frgb image" where
  \<comment> \<open>The image of \<open>nbRows\<close> rows and \<open>nbCols\<close> columns whose pixel \<open>(i, j)\<close> has the first
      three coefficients of column \<open>j*nbRows + i\<close>.\<close>
  "reshapeInImage matrixIn dims =
     (case dims of (nbRows, nbCols) \<Rightarrow>
        if list_all (\<lambda>currentInd. currentInd < ncols matrixIn \<and> 3 \<le> length (matrixIn ! currentInd))
             [0..<nbRows * nbCols]
        then Inr \<lparr>rows = nbRows, cols = nbCols,
                  px = (\<lambda>i j. (coeff matrixIn 0 (j * nbRows + i),
                               coeff matrixIn 1 (j * nbRows + i),
                               coeff matrixIn 2 (j * nbRows + i)))\<rparr>
        else Inl Undefined)"

definition photometricStereo ::
  "solver \<Rightarrow> (fvec \<Rightarrow> fl) \<Rightarrow> frgb image list \<Rightarrow> frgb list \<Rightarrow> fmatrix \<Rightarrow> real image
     \<Rightarrow> frgb image option \<Rightarrow> bool \<Rightarrow> stop + (frgb image \<times> frgb image)" where
  \<comment> \<open>The solve on decoded pictures: \<open>(normals, albedo)\<close>.\<close>
  "photometricStereo solve nanMax imageList intList lightMat maskIm ambiant isRobust =
     andThen (pictDims imageList maskIm) (\<lambda>dims.
     andThen (vectors solve nanMax imageList intList lightMat maskIm ambiant isRobust)
       (\<lambda>(normalsVect, albedoVect).
     andThen (divideByMax nanMax albedoVect) (\<lambda>albedoVect'.
     andThen (reshapeInImage normalsVect dims) (\<lambda>normalsIm.
     andThen (reshapeInImage albedoVect' dims) (\<lambda>albedoIm.
       Inr (normalsIm, albedoIm))))))"

definition normalAt :: "stop + (frgb image \<times> frgb image) \<Rightarrow> nat \<Rightarrow> nat \<Rightarrow> stop + frgb" where
  \<comment> \<open>The pixel of the normal map of a result.\<close>
  "normalAt result i j = andThen result (\<lambda>(normals, albedo). Inr (px normals i j))"

definition albedoAt :: "stop + (frgb image \<times> frgb image) \<Rightarrow> nat \<Rightarrow> nat \<Rightarrow> stop + frgb" where
  \<comment> \<open>The pixel of the albedo map of a result.\<close>
  "albedoAt result i j = andThen result (\<lambda>(normals, albedo). Inr (px albedo i j))"

definition pixelColumns :: "frgb image \<Rightarrow> fmatrix" where
  \<comment> \<open>The pixels of an image, column after column, as the columns of a matrix.\<close>
  "pixelColumns im =
     concat (map (\<lambda>j. map (\<lambda>i. case px im i j of (r, g, b) \<Rightarrow> [r, g, b]) [0..<rows im])
                 [0..<cols im])"

definition positiveMax :: "fmatrix \<Rightarrow> bool" where
  \<comment> \<open>No coefficient is NaN or plus infinity, and one is above zero: the largest
      coefficient is a positive number.\<close>
  "positiveMax m =
     (NaN \<notin> set (concat m) \<and> PInf \<notin> set (concat m) \<and> list_ex (fless (Fin 0)) (concat m))"

subsection \<open>Export of the normal map\<close>

definition convertPixel :: "rgbf \<Rightarrow> int \<times> int \<times> int" where
  \<comment> \<open>The three values assigned to the channels of one pixel, before C++ narrows them
      to \<^verbatim>\<open>unsigned char\<close>.\<close>
  "convertPixel n =
     (case n of (x, y, z) \<Rightarrow>
        if x * x + y * y + z * z = 0 then (0, 0, 0)
        else (\<lfloor>255 * (x + 1) / 2\<rfloor>, - \<lfloor>255 * (y + 1) / 2\<rfloor>, - \<lfloor>255 * z\<rfloor>))"

definition toUChar :: "int \<Rightarrow> nat option" where
  \<comment> \<open>The narrowing of an integral floating-point value to \<^verbatim>\<open>unsigned char\<close>: undefined in
      C++ outside 0..255.\<close>
  "toUChar v = (if 0 \<le> v \<and> v \<le> 255 then Some (nat v) else None)"

type_synonym rgb8 = "nat option \<times> nat option \<times> nat option"

definition convertNormalMap2png :: "rgbf image \<Rightarrow> rgb8 image \<Rightarrow> rgb8 image" where
  "convertNormalMap2png normalsIm normalsImPNG =
     normalsImPNG\<lparr>px := (\<lambda>i j.
        if i < rows normalsIm \<and> j < cols normalsIm
        then (case convertPixel (px normalsIm i j) of
                (r, g, b) \<Rightarrow> (toUChar r, toUChar g, toUChar b))
        else px normalsImPNG i j)\<rparr>"

definition spec_encode :: "rgbf \<Rightarrow> int \<times> int \<times> int" where
  \<comment> \<open>The encoding as the specification words it: black for the zero vector, else
      \<open>floor(255 (a + 1) / 2)\<close> on each axis, Y and Z negated first.\<close>
  "spec_encode n =
     (case n of (x, y, z) \<Rightarrow>
        if x = 0 \<and> y = 0 \<and> z = 0 then (0, 0, 0)
        else (\<lfloor>255 * (x + 1) / 2\<rfloor>, \<lfloor>255 * (- y + 1) / 2\<rfloor>, \<lfloor>255 * (- z + 1) / 2\<rfloor>))"

subsection \<open>The list of pictures\<close>

definition tolower :: "char \<Rightarrow> char" where
  \<comment> \<open>\<^verbatim>\<open>::tolower\<close> in the C locale.\<close>
  "tolower c =
     (if CHR ''A'' \<le> c \<and> c \<le> CHR ''Z'' then char_of (of_char c + (32 :: nat)) else c)"

fun starts_with :: "'a list \<Rightarrow> 'a list \<Rightarrow> bool" where
  "starts_with _ [] = True"
| "starts_with [] (y # ys) = False"
| "starts_with (x # xs) (y # ys) = (x = y \<and> starts_with xs ys)"

fun contains :: "'a list \<Rightarrow> 'a list \<Rightarrow> bool" where
  "contains [] t = (t = [])"
| "contains (x # xs) t = (starts_with (x # xs) t \<or> contains xs t)"

definition icontains :: "string \<Rightarrow> string \<Rightarrow> bool" where
  \<comment> \<open>\<^verbatim>\<open>boost::algorithm::icontains\<close>: \<open>test\<close> occurs in \<open>input\<close>, letter case ignored.\<close>
  "icontains input test = contains (map tolower input) (map tolower test)"

definition selected :: "string list \<Rightarrow> (string \<Rightarrow> string) \<Rightarrow> (string \<Rightarrow> string) \<Rightarrow> string \<Rightarrow> bool" where
  \<comment> \<open>What the specification asks of a listed file.\<close>
  "selected extensions stem extension p =
     (map tolower (extension p) \<in> set extensions
      \<and> \<not> icontains (stem p) ''mask'' \<and> \<not> icontains (stem p) ''ambiant'')"

definition pushedFor ::
  "string list \<Rightarrow> (string \<Rightarrow> string) \<Rightarrow> (string \<Rightarrow> string) \<Rightarrow> string \<Rightarrow> string list" where
  \<comment> \<open>What one run of the loop over the directory appends to \<open>imageList\<close>.\<close>
  "pushedFor extensions stem extension currentFilePath =
     (if \<not> icontains (stem currentFilePath) ''mask''
         \<and> \<not> icontains (stem currentFilePath) ''ambiant''
      then concat (map (\<lambda>e. if map tolower (extension currentFilePath) = e
                             then [currentFilePath] else [])
                       extensions)
      else [])"

definition getPicturesNames ::
  "string list \<Rightarrow> (string \<Rightarrow> string) \<Rightarrow> (string \<Rightarrow> string) \<Rightarrow> string list \<Rightarrow> string list
     \<Rightarrow> string list" where
  \<comment> \<open>\<open>extensions\<close> is the value of \<^verbatim>\<open>image::getSupportedExtensions()\<close>; \<open>stem\<close> and
      \<open>extension\<close> are those of Boost.Filesystem; \<open>entries\<close> are the paths of the folder
      in the order in which the directory iterator yields them; \<open>imageList\<close> is the
      vector the caller passes in.\<close>
  "getPicturesNames extensions stem extension entries imageList =
     sort (imageList @ concat (map (pushedFor extensions stem extension) entries))"


section \<open>The shrink operator\<close>

lemma shrink_coeffs:
  "j < ncols E \<Longrightarrow> i < nrows E \<Longrightarrow>
     coeff (shrink mat rho E) i j = shrink_coeff (coeff mat i j) rho"
  by (simp add: shrink_def ncols_def coeff_def)

text \<open>
  Claim C8. For every threshold \<open>t \<ge> 0\<close>, \<open>shrink\<close> replaces every coefficient of \<open>E\<close> by
  \<open>sign(x) * max(|x| - t, 0)\<close>, where \<open>x\<close> is the coefficient of the argument matrix at the
  same place; this value is 0 for \<open>x = 0\<close>, and its absolute value does not decrease when
  \<open>|x|\<close> grows.
\<close>

theorem shrink_operator:
  assumes "0 \<le> t" and "\<bar>x\<bar> \<le> \<bar>y\<bar>" and "i < nrows E" and "j < ncols E"
  shows "coeff (shrink mat t E) i j = sgn (coeff mat i j) * max (\<bar>coeff mat i j\<bar> - t) 0
         \<and> shrink_coeff x t = sgn x * max (\<bar>x\<bar> - t) 0
         \<and> shrink_coeff 0 t = 0
         \<and> \<bar>shrink_coeff x t\<bar> \<le> \<bar>shrink_coeff y t\<bar>"
proof -
  have "shrink_coeff z t = sgn z * max (\<bar>z\<bar> - t) 0" for z
    using assms(1) by (auto simp: shrink_coeff_def sgn_real_def max_def)
  moreover have "\<bar>shrink_coeff x t\<bar> \<le> \<bar>shrink_coeff y t\<bar>"
    using assms(1,2) by (auto simp: shrink_coeff_def max_def)
  moreover have "shrink_coeff 0 t = 0"
    using assms(1) by (simp add: shrink_coeff_def)
  ultimately show ?thesis using shrink_coeffs [OF assms(4,3)] by simp
qed

theorem shrink_operator_witness:
  "coeff (shrink [[- 12, 5], [15, 0]] 10 [[0, 0], [0, 0]]) 0 0 = - 2
   \<and> coeff (shrink [[- 12, 5], [15, 0]] 10 [[0, 0], [0, 0]]) 0 0
       = sgn (- 12) * max (\<bar>- 12\<bar> - 10) 0
   \<and> shrink_coeff (- 12) 10 = sgn (- 12) * max (\<bar>- 12\<bar> - 10) 0
   \<and> shrink_coeff 0 10 = 0
   \<and> \<bar>shrink_coeff (- 12) 10\<bar> \<le> \<bar>shrink_coeff 15 10\<bar>"
proof -
  have h: "(0::real) \<le> 10" "\<bar>- 12 :: real\<bar> \<le> \<bar>15\<bar>"
    "0 < nrows [[0, 0], [0, 0::real]]" "0 < ncols [[0, 0], [0, 0::real]]"
    by (simp_all add: nrows_def ncols_def)
  have c: "coeff [[- 12, 5], [15, 0::real]] 0 0 = - 12" by (simp add: coeff_def)
  have v: "sgn (- 12) * max (\<bar>- 12\<bar> - 10) 0 = (- 2 :: real)" by simp
  note t = shrink_operator [OF h, of "[[- 12, 5], [15, 0]]", unfolded c]
  from t have "coeff (shrink [[- 12, 5], [15, 0]] 10 [[0, 0], [0, 0]]) 0 0
               = sgn (- 12) * max (\<bar>- 12\<bar> - 10) 0"
    by (rule conjunct1)
  from this v have "coeff (shrink [[- 12, 5], [15, 0]] 10 [[0, 0], [0, 0]]) 0 0 = - 2"
    by (rule trans)
  with t show ?thesis by blast
qed

section \<open>The median operator\<close>

lemma sort_Nil_iff: "sort d = [] \<longleftrightarrow> d = []"
  by (metis length_sort length_0_conv)

lemma median_odd: "odd (length d) \<Longrightarrow> median d = Some (sort d ! (length d div 2))"
  by (cases d) (auto simp: median_def Let_def)

lemma median_even:
  assumes "even (length d)" and "d \<noteq> []"
  shows "median d = Some (sort d ! (length d div 2 - 1) + sort d ! (length d div 2))"
proof -
  from assms obtain b where b: "length d = 2 * b" by (auto elim: evenE)
  with assms have "0 < b" by (cases b) auto
  then have "(2 * b - 1) div 2 = b - 1" "(2 * b + 1) div 2 = b" by auto
  with b assms show ?thesis by (simp add: median_def Let_def sort_Nil_iff)
qed

text \<open>
  Claim C2. The median of an even number of values is the mean of the two middle sorted
  values. The source adds the two middle values and does not halve the sum: on the four
  values 1, 2, 3, 4 it returns 5, where the median is 5/2. (For an odd number of values
  it returns the middle sorted value, \<open>median_odd\<close>.)
\<close>

theorem median_of_four_is_sum:
  "median [1, 2, 3, 4] = Some 5 \<and> median_spec [1, 2, 3, 4] = 5 / 2"
  by (simp add: median_def median_spec_def)

section \<open>Pixel selection\<close>

lemma visited_mask:
  "\<forall>i \<in> set is. i < length indexes \<Longrightarrow> visited True indexes is = Inr (map ((!) indexes) is)"
  by (induction "is") (simp_all add: currentIdx_def vector_at_def)

lemma visited_nomask: "visited False indexes is = Inr is"
  by (induction "is") (simp_all add: currentIdx_def)

lemma activePixels_eq:
  "activePixels m (R, C) = Inr (if hasMask m then getIndMask m else [0..<R * C])"
  by (simp add: activePixels_def maskSizeOf_def visited_mask visited_nomask map_nth)

lemma column_block: "map (\<lambda>i. j * R + i) [0..<R] = [j * R..<j * R + R]"
  using map_add_upt [of "j * R" R] by (simp add: add.commute)

lemma column_blocks: "concat (map (\<lambda>j. map (\<lambda>i. j * R + i) [0..<R]) [0..<C]) = [0..<C * R]"
proof (induction C)
  case 0
  show ?case by simp
next
  case (Suc C)
  have "[0..<R + C * R] = [0..<C * R] @ [C * R..<C * R + R]"
    using upt_add_eq_append [of 0 "C * R" R] by (simp add: add.commute)
  with Suc show ?case by (simp add: column_block)
qed

lemma getIndMask_filter:
  "getIndMask m = filter (\<lambda>p. 0.7 < px m (p mod rows m) (p div rows m)) [0..<cols m * rows m]"
proof -
  let ?R = "rows m"
  let ?Q = "\<lambda>p. 0.7 < px m (p mod ?R) (p div ?R)"
  have col: "filter ?Q (map (\<lambda>i. j * ?R + i) [0..<?R])
             = map (\<lambda>i. j * ?R + i) (filter (\<lambda>i. 0.7 < px m i j) [0..<?R])" for j
  proof -
    have "filter (?Q \<circ> (\<lambda>i. j * ?R + i)) [0..<?R] = filter (\<lambda>i. 0.7 < px m i j) [0..<?R]"
      by (rule filter_cong) auto
    then show ?thesis by (simp only: filter_map)
  qed
  have "filter ?Q [0..<cols m * ?R]
        = concat (map (\<lambda>j. filter ?Q (map (\<lambda>i. j * ?R + i) [0..<?R])) [0..<cols m])"
    by (simp only: column_blocks [symmetric] filter_concat map_map comp_def)
  then show ?thesis by (simp only: col getIndMask_def)
qed

lemma getIndMask_sorted: "sorted_wrt (<) (getIndMask m)"
  unfolding getIndMask_filter by (rule sorted_wrt_filter) (simp add: sorted_wrt_upt)

lemma getIndMask_set:
  "set (getIndMask m) = {j * rows m + i | i j. i < rows m \<and> j < cols m \<and> 0.7 < px m i j}"
  by (fastforce simp: getIndMask_def)

text \<open>
  Claim C6. The values of \<open>currentIdx\<close> that the loops over the active pixels run through
  are, for a mask other than the 1 x 1 sentinel, the indices \<open>col * R + row\<close> of the pixels
  of the mask whose value is above 0.7, each once and in ascending order; for the
  sentinel they are all indices below \<open>R * C\<close> of the picture, in ascending order.
\<close>

theorem pixel_selection:
  "activePixels m (R, C) = Inr (if hasMask m then getIndMask m else [0..<R * C])
   \<and> sorted_wrt (<) (getIndMask m)
   \<and> set (getIndMask m) = {j * rows m + i | i j. i < rows m \<and> j < cols m \<and> 0.7 < px m i j}"
  by (simp only: activePixels_eq getIndMask_sorted getIndMask_set simp_thms)

theorem pixel_selection_witness:
  "activePixels \<lparr>rows = 2, cols = 2,
                  px = (\<lambda>i j. if i = 1 \<and> j = 0 then 0.8 else if i = 0 \<and> j = 1 then 1 else 0.7)\<rparr>
                (2, 2) = Inr [1, 2]
   \<and> activePixels \<lparr>rows = 1, cols = 1, px = (\<lambda>i j. 1)\<rparr> (2, 3) = Inr [0, 1, 2, 3, 4, 5]"
proof -
  let ?m = "\<lparr>rows = 2, cols = 2,
              px = (\<lambda>i j. if i = 1 \<and> j = 0 then 0.8 else if i = 0 \<and> j = 1 then 1 else (0.7::real))\<rparr>"
  let ?s = "\<lparr>rows = 1, cols = 1, px = (\<lambda>i j. 1::real)\<rparr>"
  have "hasMask ?m" and "getIndMask ?m = [1, 2]" and "\<not> hasMask ?s"
    by (simp_all add: hasMask_def getIndMask_def upt_rec)
  moreover have "[0..<2 * 3] = [0, 1, 2, 3, 4, 5::nat]"
    by (simp add: upt_rec)
  ultimately show ?thesis
    using pixel_selection [of ?m 2 2] pixel_selection [of ?s 2 3] by simp
qed

section \<open>Export of the normal map\<close>

lemma sum_squares3_zero: "x * x + y * y + z * z = 0 \<longleftrightarrow> x = 0 \<and> y = 0 \<and> (z::real) = 0"
proof
  assume h: "x * x + y * y + z * z = 0"
  have "0 \<le> x * x" "0 \<le> y * y" "0 \<le> z * z" by simp_all
  with h have "x * x = 0" "y * y = 0" "z * z = 0" by linarith+
  then show "x = 0 \<and> y = 0 \<and> z = 0" by simp
qed simp

lemma toUChar_range: "0 \<le> v \<Longrightarrow> v \<le> 255 \<Longrightarrow> toUChar v = Some (nat v)"
  by (simp add: toUChar_def)

lemma red_range:
  "- 1 \<le> x \<Longrightarrow> x \<le> 1 \<Longrightarrow> 0 \<le> \<lfloor>255 * (x + 1) / 2\<rfloor> \<and> \<lfloor>255 * (x + 1) / 2\<rfloor> \<le> 255"
  for x :: real
  by (simp add: le_floor_iff floor_le_iff)

lemma blue_range:
  "- 1 \<le> z \<Longrightarrow> z \<le> 0 \<Longrightarrow> 0 \<le> - \<lfloor>255 * z\<rfloor> \<and> - \<lfloor>255 * z\<rfloor> \<le> 255"
  for z :: real
proof -
  assume a: "- 1 \<le> z" "z \<le> 0"
  then have "\<lfloor>255 * z\<rfloor> \<le> 0" by (simp add: floor_le_iff)
  moreover from a have "- 255 \<le> \<lfloor>255 * z\<rfloor>" by (simp add: le_floor_iff)
  ultimately show ?thesis by linarith
qed

text \<open>
  Claim C3, as the specification states it: every axis of a nonzero normal is encoded as
  \<open>floor(255 (a + 1) / 2)\<close>, Y and Z being negated first. The source does not encode Z
  so: for the unit normal (3/5, 0, -4/5) it stores 204 in the third channel, where the
  stated encoding gives 229.
\<close>

theorem normal_map_export_counterexample:
  "snd (snd (convertPixel (3/5, 0, - 4/5))) \<noteq> snd (snd (spec_encode (3/5, 0, - 4/5)))"
  by (simp add: convertPixel_def spec_encode_def)

text \<open>
  Claim C3, amended. A pixel whose normal is exactly zero is stored as (0, 0, 0). For any
  other normal \<open>(x, y, z)\<close> the first channel receives \<open>floor(255 (x + 1) / 2)\<close> and the
  third channel receives \<open>- floor(255 z)\<close>, narrowed to 8 bits: the sign is flipped after
  the floor and Z is neither shifted nor halved. The two values are within 0..255 when
  \<open>-1 \<le> x \<le> 1\<close> and \<open>-1 \<le> z \<le> 0\<close>.
\<close>

theorem normal_map_export:
  assumes "i < rows normalsIm" and "j < cols normalsIm" and "px normalsIm i j = (x, y, z)"
  shows "if x = 0 \<and> y = 0 \<and> z = 0
         then px (convertNormalMap2png normalsIm png) i j = (Some 0, Some 0, Some 0)
         else fst (px (convertNormalMap2png normalsIm png) i j) = toUChar \<lfloor>255 * (x + 1) / 2\<rfloor>
              \<and> snd (snd (px (convertNormalMap2png normalsIm png) i j)) = toUChar (- \<lfloor>255 * z\<rfloor>)
              \<and> (- 1 \<le> x \<and> x \<le> 1 \<longrightarrow>
                   fst (px (convertNormalMap2png normalsIm png) i j)
                   = Some (nat \<lfloor>255 * (x + 1) / 2\<rfloor>))
              \<and> (- 1 \<le> z \<and> z \<le> 0 \<longrightarrow>
                   snd (snd (px (convertNormalMap2png normalsIm png) i j))
                   = Some (nat (- \<lfloor>255 * z\<rfloor>)))"
proof (cases "x = 0 \<and> y = 0 \<and> z = 0")
  case True
  with assms show ?thesis by (simp add: convertNormalMap2png_def convertPixel_def toUChar_def)
next
  case False
  then have nz: "x * x + y * y + z * z \<noteq> 0" by (simp add: sum_squares3_zero)
  from assms nz
  have r: "fst (px (convertNormalMap2png normalsIm png) i j) = toUChar \<lfloor>255 * (x + 1) / 2\<rfloor>"
    and b: "snd (snd (px (convertNormalMap2png normalsIm png) i j)) = toUChar (- \<lfloor>255 * z\<rfloor>)"
    by (simp_all add: convertNormalMap2png_def convertPixel_def)
  show ?thesis
    by (subst if_not_P [OF False])
       (use red_range [of x] blue_range [of z] in \<open>simp add: r b toUChar_range\<close>)
qed

theorem normal_map_export_witness:
  "px (convertNormalMap2png
         \<lparr>rows = 1, cols = 2, px = (\<lambda>i j. if j = 0 then (0, 0, 0) else (3/5, 0, - 4/5))\<rparr>
         \<lparr>rows = 1, cols = 2, px = (\<lambda>i j. (None, None, None))\<rparr>) 0 0 = (Some 0, Some 0, Some 0)
   \<and> fst (px (convertNormalMap2png
         \<lparr>rows = 1, cols = 2, px = (\<lambda>i j. if j = 0 then (0, 0, 0) else (3/5, 0, - 4/5))\<rparr>
         \<lparr>rows = 1, cols = 2, px = (\<lambda>i j. (None, None, None))\<rparr>) 0 1) = Some 204
   \<and> snd (snd (px (convertNormalMap2png
         \<lparr>rows = 1, cols = 2, px = (\<lambda>i j. if j = 0 then (0, 0, 0) else (3/5, 0, - 4/5))\<rparr>
         \<lparr>rows = 1, cols = 2, px = (\<lambda>i j. (None, None, None))\<rparr>) 0 1)) = Some 204"
proof -
  let ?n = "\<lparr>rows = 1, cols = 2,
              px = (\<lambda>i j. if j = 0 then (0, 0, 0) else (3/5, 0, - 4/5 :: real))\<rparr>"
  let ?p = "\<lparr>rows = 1, cols = 2, px = (\<lambda>i j. (None, None, None :: nat option))\<rparr>"
  have "px (convertNormalMap2png ?n ?p) 0 0 = (Some 0, Some 0, Some 0)"
    using normal_map_export [of 0 ?n 0 0 0 0 ?p] by simp
  moreover have "fst (px (convertNormalMap2png ?n ?p) 0 1) = Some 204
      \<and> snd (snd (px (convertNormalMap2png ?n ?p) 0 1)) = Some 204"
    using normal_map_export [of 0 ?n 1 "3/5" 0 "- 4/5" ?p] by (simp add: toUChar_def)
  ultimately show ?thesis by blast
qed

section \<open>The list of pictures\<close>

lemma pushedFor_set:
  "set (pushedFor exts stem ext p) = (if selected exts stem ext p then {p} else {})"
  by (auto simp: pushedFor_def selected_def)

lemma same_extension_once:
  "distinct exts \<Longrightarrow>
     concat (map (\<lambda>e. if x = e then [p] else []) exts) = (if x \<in> set exts then [p] else [])"
  by (induction exts) auto

lemma pushedFor_distinct:
  "distinct exts \<Longrightarrow> pushedFor exts stem ext p = (if selected exts stem ext p then [p] else [])"
  by (simp add: pushedFor_def selected_def same_extension_once)

lemma concat_pushed_filter:
  "distinct exts \<Longrightarrow>
     concat (map (pushedFor exts stem ext) entries) = filter (selected exts stem ext) entries"
  by (induction entries) (simp_all add: pushedFor_distinct)

lemma mset_concat_map:
  assumes "mset xs = mset ys"
  shows "mset (concat (map f xs)) = mset (concat (map f ys))"
proof -
  have "mset (concat (map f zs)) = sum_mset (image_mset (\<lambda>z. mset (f z)) (mset zs))" for zs
    by (induction zs) simp_all
  with assms show ?thesis by simp
qed

text \<open>
  Claim C10. Called with an empty list, \<open>getPicturesNames\<close> returns, in ascending
  lexicographic order of the full paths, the entries of the folder whose lower-cased
  extension is a supported extension and whose stem contains neither "mask" nor "ambiant"
  in any letter case: each of them once when no extension is listed twice. The result is
  the same for every order in which the directory yields its entries.
\<close>

theorem pictures_names:
  "sorted (getPicturesNames exts stem ext entries [])
   \<and> set (getPicturesNames exts stem ext entries []) = {p \<in> set entries. selected exts stem ext p}
   \<and> (distinct exts \<longrightarrow>
        getPicturesNames exts stem ext entries [] = sort (filter (selected exts stem ext) entries))
   \<and> (mset entries' = mset entries \<longrightarrow>
        getPicturesNames exts stem ext entries' [] = getPicturesNames exts stem ext entries [])"
proof (intro conjI impI)
  show "sorted (getPicturesNames exts stem ext entries [])"
    by (simp add: getPicturesNames_def)
  show "set (getPicturesNames exts stem ext entries []) = {p \<in> set entries. selected exts stem ext p}"
    by (auto simp: getPicturesNames_def pushedFor_set split: if_splits)
  show "getPicturesNames exts stem ext entries [] = sort (filter (selected exts stem ext) entries)"
    if "distinct exts"
    using that by (simp add: getPicturesNames_def concat_pushed_filter)
  show "getPicturesNames exts stem ext entries' [] = getPicturesNames exts stem ext entries []"
    if "mset entries' = mset entries"
    unfolding getPicturesNames_def
    by (rule properties_for_sort) (simp_all add: mset_concat_map [OF that])
qed

theorem pictures_names_witness:
  "getPicturesNames [''.png'', ''.jpg''] (takeWhile (\<lambda>c. c \<noteq> CHR ''.'')) (dropWhile (\<lambda>c. c \<noteq> CHR ''.''))
     [''b.PNG'', ''mask.png'', ''a.png'', ''notes.txt'', ''Ambiant.png''] [] = [''a.png'', ''b.PNG'']
   \<and> getPicturesNames [''.png'', ''.jpg''] (takeWhile (\<lambda>c. c \<noteq> CHR ''.'')) (dropWhile (\<lambda>c. c \<noteq> CHR ''.''))
     [''a.png'', ''Ambiant.png'', ''notes.txt'', ''mask.png'', ''b.PNG''] [] = [''a.png'', ''b.PNG'']"
proof -
  let ?exts = "[''.png'', ''.jpg'']"
  let ?stem = "takeWhile (\<lambda>c. c \<noteq> CHR ''.'')"
  let ?ext = "dropWhile (\<lambda>c. c \<noteq> CHR ''.'')"
  let ?entries = "[''b.PNG'', ''mask.png'', ''a.png'', ''notes.txt'', ''Ambiant.png'']"
  let ?entries' = "[''a.png'', ''Ambiant.png'', ''notes.txt'', ''mask.png'', ''b.PNG'']"
  have d: "distinct ?exts" by simp
  have m: "mset ?entries' = mset ?entries" by (simp add: add_mset_commute)
  have e: "sort (filter (selected ?exts ?stem ?ext) ?entries) = [''a.png'', ''b.PNG'']"
    by code_simp
  from pictures_names [of ?exts ?stem ?ext ?entries ?entries'] d m e show ?thesis
    by (simp only:)
qed

section \<open>Floating-point values and sequencing\<close>

lemma andThen_Inr [simp]: "andThen (Inr x) f = f x"
  by (simp add: andThen_def)

lemma andThen_Inl [simp]: "andThen (Inl e) f = Inl e"
  by (simp add: andThen_def)

lemma andThen_eq_Inr: "(andThen m f = Inr y) = (\<exists>x. m = Inr x \<and> f x = Inr y)"
  by (cases m) simp_all

lemma fsum_Fin: "fsum (map Fin xs) = Fin (sum_list xs)"
  by (induction xs) (simp_all add: fsum_def)

lemma fsum_squares_Fin: "fsum (map (\<lambda>x. fmul x x) (map Fin xs)) = Fin (\<Sum>x\<leftarrow>xs. x * x)"
proof -
  have "map (\<lambda>x. fmul x x) (map Fin xs) = map Fin (map (\<lambda>x. x * x) xs)" by simp
  then show ?thesis by (simp only: fsum_Fin)
qed

lemma sum_squares_nonneg: "0 \<le> (\<Sum>x\<leftarrow>v. x * x)" for v :: "real list"
  by (induction v) simp_all

lemma fnorm_Fin: "fnorm (map Fin xs) = Fin (sqrt (\<Sum>x\<leftarrow>xs. x * x))"
  unfolding fnorm_def fsum_squares_Fin using sum_squares_nonneg [of xs] by simp

lemma frobenius_Fin: "frobenius (map (map Fin) m) = Fin (sqrt (\<Sum>x\<leftarrow>concat m. x * x))"
  by (simp add: frobenius_def map_concat [symmetric] fnorm_Fin)

lemma fadd_Fin_D: "fadd a b = Fin s \<Longrightarrow> \<exists>x y. a = Fin x \<and> b = Fin y \<and> s = x + y"
  by (cases a; cases b) simp_all

lemma fmul_self_Fin_D: "fmul a a = Fin s \<Longrightarrow> \<exists>x. a = Fin x \<and> s = x * x"
  by (cases a) (simp_all add: infOfSign_def split: if_splits)

lemma fsum_squares_Fin_D:
  "fsum (map (\<lambda>x. fmul x x) v) = Fin s \<Longrightarrow> \<exists>xs. v = map Fin xs \<and> s = (\<Sum>x\<leftarrow>xs. x * x)"
proof (induction v arbitrary: s)
  case Nil
  then show ?case by (simp add: fsum_def)
next
  case (Cons a v)
  from Cons.prems have "fadd (fmul a a) (fsum (map (\<lambda>x. fmul x x) v)) = Fin s"
    by (simp add: fsum_def)
  from fadd_Fin_D [OF this] obtain p q where
    p: "fmul a a = Fin p" and q: "fsum (map (\<lambda>x. fmul x x) v) = Fin q" and s: "s = p + q"
    by blast
  from fmul_self_Fin_D [OF p] obtain x where x: "a = Fin x" "p = x * x" by blast
  from Cons.IH [OF q] obtain xs where xs: "v = map Fin xs" "q = (\<Sum>x\<leftarrow>xs. x * x)" by blast
  show ?case by (rule exI [of _ "x # xs"]) (simp add: x xs s)
qed

lemma fnorm_Fin_D:
  assumes "fnorm v = Fin n"
  shows "\<exists>xs. v = map Fin xs \<and> n = sqrt (\<Sum>x\<leftarrow>xs. x * x)"
proof -
  from assms obtain s where s: "fsum (map (\<lambda>x. fmul x x) v) = Fin s" and n: "n = sqrt s"
    unfolding fnorm_def by (cases "fsum (map (\<lambda>x. fmul x x) v)") (simp_all split: if_splits)
  from fsum_squares_Fin_D [OF s] n show ?thesis by blast
qed

lemma fless_irrefl: "\<not> fless a a"
  by (cases a) simp_all

lemma fless_trans: "fless a b \<Longrightarrow> fless b c \<Longrightarrow> fless a c"
  by (cases a; cases b; cases c) simp_all

lemma fless_total: "a \<noteq> NaN \<Longrightarrow> b \<noteq> NaN \<Longrightarrow> fless a b \<or> a = b \<or> fless b a"
  by (cases a; cases b) auto

lemma fsub_Fin: "fsub (Fin x) (Fin y) = Fin (x - y)"
  by (simp add: fsub_def)

section \<open>The shrink and median operators on floating-point values\<close>

lemma nrows_map_Fin: "nrows (map (map Fin) E) = nrows E"
  by (cases E) (simp_all add: nrows_def)

lemma shrinkF_Fin:
  "shrinkF (map (map Fin) mat) rho (map (map Fin) E)
   = (if list_all (\<lambda>j. j < ncols mat \<and> nrows E \<le> length (mat ! j)) [0..<ncols E]
      then Inr (map (map Fin) (shrink mat rho E)) else Inl Undefined)"
proof (cases "list_all (\<lambda>j. j < ncols mat \<and> nrows E \<le> length (mat ! j)) [0..<ncols E]")
  case True
  then have ok: "j < length mat \<and> nrows E \<le> length (mat ! j)" if "j < length E" for j
    using that by (simp add: list_all_iff ncols_def)
  have "map (\<lambda>j. map (\<lambda>i. shrink_fl (coeff (map (map Fin) mat) i j) rho) [0..<nrows E])
            [0..<length E]
        = map (\<lambda>j. map (\<lambda>i. Fin (shrink_coeff (coeff mat i j) rho)) [0..<nrows E])
            [0..<length E]"
  proof (intro map_cong [OF refl])
    fix j i assume "j \<in> set [0..<length E]" "i \<in> set [0..<nrows E]"
    with ok [of j] have "j < length mat" "i < length (mat ! j)" by simp_all
    then show "shrink_fl (coeff (map (map Fin) mat) i j) rho
               = Fin (shrink_coeff (coeff mat i j) rho)"
      by (simp add: coeff_def)
  qed
  moreover have "list_all (\<lambda>j. j < ncols (map (map Fin) mat)
                    \<and> nrows (map (map Fin) E) \<le> length (map (map Fin) mat ! j))
                  [0..<ncols (map (map Fin) E)]"
    using ok by (simp add: list_all_iff ncols_def nrows_map_Fin)
  ultimately show ?thesis using True
    by (simp add: shrinkF_def shrink_def ncols_def nrows_map_Fin comp_def)
next
  case False
  then obtain j where j: "j < length E" "\<not> (j < length mat \<and> nrows E \<le> length (mat ! j))"
    by (auto simp: list_all_iff ncols_def)
  then have "\<not> list_all (\<lambda>j. j < ncols (map (map Fin) mat)
                    \<and> nrows (map (map Fin) E) \<le> length (map (map Fin) mat ! j))
                  [0..<ncols (map (map Fin) E)]"
    by (auto simp: list_all_iff ncols_def nrows_map_Fin)
  with False show ?thesis by (simp add: shrinkF_def)
qed

lemma insertF_Fin: "insertF (Fin x) (map Fin ys) = map Fin (insort x ys)"
  by (induction ys) auto

lemma sortF_Fin: "sortF (map Fin d) = map Fin (sort d)"
  by (induction d) (simp_all add: sortF_def insertF_Fin sort_key_def)

lemma medianF_Fin:
  "medianF (map Fin d) = (case median d of None \<Rightarrow> Inl Undefined | Some v \<Rightarrow> Inr (Fin v))"
proof (cases "d = []")
  case True
  then show ?thesis by (simp add: medianF_def median_def)
next
  case False
  have nan: "NaN \<notin> set (map Fin d)" by auto
  have i: "(length d - 1) div 2 < length (sort d)" "(length d + 1) div 2 < length (sort d)"
    if "length d mod 2 = 0"
    using that False by (cases d; simp; presburger)+
  have j: "length d div 2 < length (sort d)" using False by (cases d) simp_all
  from False nan i j show ?thesis
    unfolding medianF_def median_def Let_def sortF_Fin by (simp del: set_map)
qed

section \<open>Normalisation by the maximum\<close>

lemma stdmax_cases: "stdmax a b = a \<or> stdmax a b = b"
  by (simp add: stdmax_def)

lemma stdmax_upper: "a \<noteq> NaN \<Longrightarrow> b \<noteq> NaN \<Longrightarrow> \<not> fless (stdmax a b) a \<and> \<not> fless (stdmax a b) b"
  unfolding stdmax_def by (cases a; cases b) auto

lemma not_fless_trans:
  assumes "\<not> fless r x" and "\<not> fless x y" and "r \<noteq> NaN" and "x \<noteq> NaN" and "y \<noteq> NaN"
  shows "\<not> fless r y"
  using assms by (cases r; cases x; cases y) auto

lemma fold_stdmax:
  assumes "NaN \<notin> set (x # xs)"
  shows "fold (\<lambda>x acc. stdmax acc x) xs x \<in> set (x # xs)
       \<and> (\<forall>y \<in> set (x # xs). \<not> fless (fold (\<lambda>x acc. stdmax acc x) xs x) y)"
  using assms
proof (induction xs arbitrary: x)
  case Nil
  then show ?case by (simp add: fless_irrefl)
next
  case (Cons a xs)
  let ?x = "stdmax x a"
  let ?r = "fold (\<lambda>x acc. stdmax acc x) xs ?x"
  from Cons.prems have xa: "x \<noteq> NaN" "a \<noteq> NaN" and xs: "NaN \<notin> set xs" by auto
  from stdmax_cases [of x a] xa have x': "?x \<noteq> NaN" "?x = x \<or> ?x = a" by auto
  with xs have "NaN \<notin> set (?x # xs)" by auto
  from Cons.IH [OF this] have r: "?r \<in> set (?x # xs)" and up: "\<forall>y \<in> set (?x # xs). \<not> fless ?r y"
    by blast+
  from r x' xs have rn: "?r \<noteq> NaN" by auto
  from up have rx: "\<not> fless ?r ?x" by simp
  from stdmax_upper [OF xa] have ux: "\<not> fless ?x x" and ua: "\<not> fless ?x a" by blast+
  have 1: "\<not> fless ?r x" using rx ux rn x'(1) xa(1) by (rule not_fless_trans)
  have 2: "\<not> fless ?r a" using rx ua rn x'(1) xa(2) by (rule not_fless_trans)
  from 1 2 up r x' show ?case by auto
qed

lemma maxCoeff_unique:
  assumes "NaN \<notin> set (concat m)" and "r \<in> set (concat m)"
    and "\<forall>y \<in> set (concat m). \<not> fless r y"
  shows "maxCoeff nanMax m = Inr r"
proof -
  from length_pos_if_in_set [OF assms(2)] have ne: "concat m \<noteq> []"
    by (simp del: concat_eq_Nil_conv)
  then have c: "concat m = hd (concat m) # tl (concat m)" by simp
  let ?r = "fold (\<lambda>x acc. stdmax acc x) (tl (concat m)) (hd (concat m))"
  from assms(1) c have "NaN \<notin> set (hd (concat m) # tl (concat m))" by simp
  from fold_stdmax [OF this] c
  have r': "?r \<in> set (concat m)" and up: "\<forall>y \<in> set (concat m). \<not> fless ?r y" by simp_all
  from assms(1,2) r' have "r \<noteq> NaN" "?r \<noteq> NaN" by auto
  moreover from assms(3) r' up assms(2) have "\<not> fless r ?r" "\<not> fless ?r r" by blast+
  ultimately have "?r = r" using fless_total [of ?r r] by blast
  with ne assms(1) show ?thesis
    unfolding maxCoeff_def by (simp del: concat_eq_Nil_conv set_concat)
qed

lemma maxCoeff_positive:
  assumes "positiveMax m"
  shows "\<exists>a. 0 < a \<and> maxCoeff nanMax m = Inr (Fin a) \<and> Fin a \<in> set (concat m)
            \<and> (\<forall>y \<in> set (concat m). \<not> fless (Fin a) y)"
proof -
  from assms have nan: "NaN \<notin> set (concat m)" and inf: "PInf \<notin> set (concat m)"
    and "list_ex (fless (Fin 0)) (concat m)"
    unfolding positiveMax_def by blast+
  then obtain x where x: "x \<in> set (concat m)" "fless (Fin 0) x"
    unfolding list_ex_iff by blast
  from length_pos_if_in_set [OF x(1)] have ne: "concat m \<noteq> []"
    by (simp del: concat_eq_Nil_conv)
  then have c: "concat m = hd (concat m) # tl (concat m)" by simp
  let ?r = "fold (\<lambda>x acc. stdmax acc x) (tl (concat m)) (hd (concat m))"
  from nan c have "NaN \<notin> set (hd (concat m) # tl (concat m))" by simp
  from fold_stdmax [OF this] c
  have r: "?r \<in> set (concat m)" and up: "\<forall>y \<in> set (concat m). \<not> fless ?r y" by simp_all
  from up x have rx: "\<not> fless ?r x" by blast
  from r nan inf have "?r \<noteq> NaN" "?r \<noteq> PInf" by auto
  with rx x(2) obtain a where a: "?r = Fin a" "0 < a" by (cases ?r; cases x) auto
  from maxCoeff_unique [OF nan r up] a r up show ?thesis by auto
qed

lemma concat_sdiv: "concat (sdiv m c) = map (\<lambda>x. fdiv x c) (concat m)"
  by (simp add: sdiv_def map_concat)

lemma divideByMax_positive:
  assumes "positiveMax m"
  shows "\<exists>m'. divideByMax nanMax m = Inr m' \<and> maxCoeff nanMax m' = Inr (Fin 1)
             \<and> map length m' = map length m"
proof -
  from assms have nan: "NaN \<notin> set (concat m)" unfolding positiveMax_def by blast
  from maxCoeff_positive [OF assms, of nanMax] obtain a where a: "0 < a"
    and mx: "maxCoeff nanMax m = Inr (Fin a)" and el: "Fin a \<in> set (concat m)"
    and up: "\<forall>y \<in> set (concat m). \<not> fless (Fin a) y"
    by blast
  let ?m' = "sdiv m (Fin a)"
  have d: "divideByMax nanMax m = Inr ?m'" by (simp add: divideByMax_def mx)
  have 1: "NaN \<notin> set (concat ?m')"
  proof
    assume "NaN \<in> set (concat ?m')"
    then have "NaN \<in> (\<lambda>x. fdiv x (Fin a)) ` set (concat m)"
      unfolding concat_sdiv set_map .
    then obtain x where "NaN = fdiv x (Fin a)" "x \<in> set (concat m)" by (rule imageE)
    with nan a show False by (cases x) (auto simp: infOfSign_def split: if_splits)
  qed
  have "fdiv (Fin a) (Fin a) = Fin 1" using a by simp
  with el have "Fin 1 \<in> (\<lambda>x. fdiv x (Fin a)) ` set (concat m)" by (metis imageI)
  then have 2: "Fin 1 \<in> set (concat ?m')" unfolding concat_sdiv set_map .
  have 3: "\<forall>y \<in> set (concat ?m'). \<not> fless (Fin 1) y"
  proof
    fix y assume "y \<in> set (concat ?m')"
    then have "y \<in> (\<lambda>x. fdiv x (Fin a)) ` set (concat m)"
      unfolding concat_sdiv set_map .
    then obtain x where x: "y = fdiv x (Fin a)" "x \<in> set (concat m)" by (rule imageE)
    with up have "\<not> fless (Fin a) x" by blast
    with a x(1) show "\<not> fless (Fin 1) y"
      by (cases x) (auto simp: infOfSign_def divide_le_eq split: if_splits)
  qed
  have "map length ?m' = map length m" by (simp add: sdiv_def comp_def)
  with d maxCoeff_unique [OF 1 2 3] show ?thesis by blast
qed

section \<open>The robust loop\<close>

lemma robustBody_Inr:
  "(robustBody solve L G s = Inr (s', c))
   = (robustStep solve L G s = Inr s' \<and> ecart_relatif (fst s) (fst s') = Inr c)"
  by (cases "robustStep solve L G s") (auto simp: robustBody_def andThen_eq_Inr)

lemma stateAt_Suc_Inr:
  "stateAt solve L G s0 n = Inr s \<Longrightarrow> robustBody solve L G s = Inr (s', c)
   \<Longrightarrow> stateAt solve L G s0 (Suc n) = Inr s'"
  by simp

lemma stateAt_Suc_Inl:
  "stateAt solve L G s0 n = Inr s \<Longrightarrow> robustBody solve L G s = Inl e
   \<Longrightarrow> stateAt solve L G s0 (Suc n) = Inl e"
  by simp

lemma robustLoop_from:
  assumes "k \<le> max_iterations" and "stateAt solve L G s0 k = Inr sk"
  shows "case robustLoop solve L G k sk of
           Inl e \<Rightarrow>
             \<exists>k'. k \<le> k' \<and> k' < max_iterations
               \<and> (\<exists>s. stateAt solve L G s0 k' = Inr s \<and> robustBody solve L G s = Inl e)
               \<and> (\<forall>j. k \<le> j \<and> j < k' \<longrightarrow>
                     (\<exists>s s' c. stateAt solve L G s0 j = Inr s \<and> robustBody solve L G s = Inr (s', c)
                        \<and> \<not> (10 < j \<and> fless c (Fin epsilon))))
         | Inr (k', stopped, s') \<Rightarrow>
             k \<le> k' \<and> k' \<le> max_iterations
             \<and> (\<forall>j. k \<le> j \<and> j < k' \<longrightarrow>
                   (\<exists>s s' c. stateAt solve L G s0 j = Inr s \<and> robustBody solve L G s = Inr (s', c)
                      \<and> \<not> (10 < j \<and> fless c (Fin epsilon))))
             \<and> (if stopped
                 then k' < max_iterations
                      \<and> (\<exists>s c. stateAt solve L G s0 k' = Inr s
                            \<and> robustBody solve L G s = Inr (s', c)
                            \<and> 10 < k' \<and> fless c (Fin epsilon))
                 else k' = max_iterations \<and> stateAt solve L G s0 max_iterations = Inr s')"
  using assms
proof (induction "max_iterations - k" arbitrary: k sk)
  case 0
  then have "k = max_iterations" by simp
  with "0.prems"(2) show ?case by (auto simp: robustLoop.simps [of _ _ _ max_iterations])
next
  case (Suc n)
  then have lt: "k < max_iterations" by simp
  let ?Q = "\<lambda>j. \<exists>s s' c. stateAt solve L G s0 j = Inr s \<and> robustBody solve L G s = Inr (s', c)
                      \<and> \<not> (10 < j \<and> fless c (Fin epsilon))"
  note sk = Suc.prems(2)
  show ?case
  proof (cases "robustBody solve L G sk")
    case (Inl e)
    then have r: "robustLoop solve L G k sk = Inl e"
      using lt by (simp add: robustLoop.simps [of _ _ _ k])
    show ?thesis unfolding r sum.case
      by (rule exI [of _ k]) (use lt sk Inl in auto)
  next
    case (Inr p)
    obtain s' c where p: "p = (s', c)" by (cases p)
    with Inr have body: "robustBody solve L G sk = Inr (s', c)" by simp
    show ?thesis
    proof (cases "10 < k \<and> fless c (Fin epsilon)")
      case True
      then have r: "robustLoop solve L G k sk = Inr (k, True, s')"
        using lt body by (simp add: robustLoop.simps [of _ _ _ k])
      show ?thesis unfolding r using lt sk body True by auto
    next
      case False
      then have step: "robustLoop solve L G k sk = robustLoop solve L G (Suc k) s'"
        using lt body by (auto simp add: robustLoop.simps [of _ _ _ k])
      from Suc.hyps(2) lt have n: "n = max_iterations - Suc k" and le: "Suc k \<le> max_iterations"
        by simp_all
      have st: "stateAt solve L G s0 (Suc k) = Inr s'" by (rule stateAt_Suc_Inr [OF sk body])
      have Qk: "?Q k" using sk body False by blast
      have ext: "?Q j" if "k \<le> j" "j < k'" "\<forall>j. Suc k \<le> j \<and> j < k' \<longrightarrow> ?Q j" for j k'
      proof (cases "j = k")
        case True
        with Qk show ?thesis by simp
      next
        case False
        with that(1) have "Suc k \<le> j" by simp
        with that(2,3) show ?thesis by blast
      qed
      note IH = Suc.hyps(1) [OF n le st]
      show ?thesis
      proof (cases "robustLoop solve L G (Suc k) s'")
        case (Inl e)
        with IH obtain k' where k': "Suc k \<le> k'" "k' < max_iterations"
          "\<exists>s. stateAt solve L G s0 k' = Inr s \<and> robustBody solve L G s = Inl e"
          "\<forall>j. Suc k \<le> j \<and> j < k' \<longrightarrow> ?Q j"
          by auto
        have "\<forall>j. k \<le> j \<and> j < k' \<longrightarrow> ?Q j" using ext k'(4) by blast
        with k'(1,2,3) have "\<exists>k'. k \<le> k' \<and> k' < max_iterations
               \<and> (\<exists>s. stateAt solve L G s0 k' = Inr s \<and> robustBody solve L G s = Inl e)
               \<and> (\<forall>j. k \<le> j \<and> j < k' \<longrightarrow> ?Q j)"
          by (intro exI [of _ k']) simp
        then show ?thesis unfolding step Inl sum.case .
      next
        case (Inr q)
        obtain k' stopped s'' where q: "q = (k', stopped, s'')" by (cases q)
        from IH [unfolded Inr q sum.case prod.case]
        have a: "Suc k \<le> k'" "k' \<le> max_iterations"
          "\<forall>j. Suc k \<le> j \<and> j < k' \<longrightarrow> ?Q j"
          and b: "if stopped
                 then k' < max_iterations
                      \<and> (\<exists>s c. stateAt solve L G s0 k' = Inr s
                            \<and> robustBody solve L G s = Inr (s'', c)
                            \<and> 10 < k' \<and> fless c (Fin epsilon))
                 else k' = max_iterations \<and> stateAt solve L G s0 max_iterations = Inr s''"
          by blast+
        have "\<forall>j. k \<le> j \<and> j < k' \<longrightarrow> ?Q j" using ext a(3) by blast
        with a(1,2) b show ?thesis unfolding step Inr q by simp
      qed
    qed
  qed
qed

lemma cwise_Fin:
  assumes "map length a = map length b"
  shows "cwise f (map (map Fin) a) (map (map Fin) b)
         = Inr (map2 (\<lambda>u v. map2 (\<lambda>x y. f (Fin x) (Fin y)) u v) a b)"
proof -
  have "map length (map (map Fin) a) = map length (map (map Fin) b)"
    using assms by (simp add: comp_def)
  then have "cwise f (map (map Fin) a) (map (map Fin) b)
      = Inr (map2 (map2 f) (map (map Fin) a) (map (map Fin) b))"
    unfolding cwise_def by (rule if_P)
  also have "map2 (map2 f) (map (map Fin) a) (map (map Fin) b)
      = map2 (\<lambda>u v. map2 (\<lambda>x y. f (Fin x) (Fin y)) u v) a b"
    by (simp add: zip_map_map case_prod_unfold)
  finally show ?thesis .
qed

lemma msub_Fin:
  assumes "map length a = map length b"
  shows "msub (map (map Fin) a) (map (map Fin) b) = Inr (map (map Fin) (map2 (map2 (-)) a b))"
  unfolding msub_def cwise_Fin [OF assms]
  by (simp add: fsub_Fin case_prod_unfold)

lemma ecart_relatif_Fin:
  assumes "map length a = map length b"
  shows "ecart_relatif (map (map Fin) a) (map (map Fin) b) = Inr (relativeChange a b)"
proof -
  let ?c = "sqrt (\<Sum>x\<leftarrow>concat (map2 (map2 (-)) a b). x * x)"
  let ?s = "sqrt (\<Sum>x\<leftarrow>concat b. x * x)"
  have c: "0 \<le> (\<Sum>x\<leftarrow>concat (map2 (map2 (-)) a b). x * x)" by (rule sum_squares_nonneg)
  have "ecart_relatif (map (map Fin) a) (map (map Fin) b) = Inr (fdiv (Fin ?c) (Fin ?s))"
    unfolding ecart_relatif_def msub_Fin [OF assms] andThen_Inr frobenius_Fin ..
  also have "fdiv (Fin ?c) (Fin ?s) = relativeChange a b"
    using c unfolding relativeChange_def Let_def by (auto simp: infOfSign_def)
  finally show ?thesis .
qed

lemma robustLoop_fixed_point:
  assumes "robustBody solve L G s = Inr (s, c)" and "\<not> fless c (Fin epsilon)"
    and "k \<le> max_iterations"
  shows "robustLoop solve L G k s = Inr (max_iterations, False, s)"
  using assms(3)
proof (induction "max_iterations - k" arbitrary: k)
  case 0
  then have "k = max_iterations" by simp
  then show ?case by (simp add: robustLoop.simps [of _ _ _ max_iterations])
next
  case (Suc n)
  then have "k < max_iterations" "n = max_iterations - Suc k" "Suc k \<le> max_iterations"
    by simp_all
  with Suc.hyps(1) [of "Suc k"] assms(1,2) show ?case
    by (simp add: robustLoop.simps [of _ _ _ k])
qed

text \<open>
  Claim C5. The robust loop is left at an index \<open>k\<close> of at most 1000, so its body runs at
  most 1000 times. It is left by \<^verbatim>\<open>break\<close> exactly at the first index above 10 at which
  \<open>ecart_relatif\<close> is below 0.001: at every earlier index the body has run to its end and
  the index is not above 10 or \<open>ecart_relatif\<close> is not below 0.001. When no index below
  1000 is such, the body has run 1000 times and the loop hands on the matrices it then
  has. (When an operation of the body has no defined result, this is in one of the at
  most 1000 runs of the body.) \<open>ecart_relatif\<close> is the Frobenius norm of the change of
  \<open>M\<close> divided by the Frobenius norm of the new \<open>M\<close>: on matrices of numbers of the same
  size, the square root of the sum of the squares of the differences, divided by the
  square root of the sum of the squares of the new coefficients.
\<close>

theorem robust_loop_bound:
  "(case robustLoop solve L G 0 s0 of
      Inl e \<Rightarrow>
        (\<exists>k < 1000. \<exists>sk. stateAt solve L G s0 k = Inr sk
           \<and> stateAt solve L G s0 (Suc k) = Inl e)
    | Inr (k, stopped, s) \<Rightarrow>
        k \<le> 1000
        \<and> (\<forall>j < k. \<exists>sj sj' c.
               stateAt solve L G s0 j = Inr sj \<and> stateAt solve L G s0 (Suc j) = Inr sj'
               \<and> ecart_relatif (fst sj) (fst sj') = Inr c
               \<and> \<not> (10 < j \<and> fless c (Fin 0.001)))
        \<and> (if stopped
            then k < 1000 \<and> 10 < k
                 \<and> (\<exists>sk c. stateAt solve L G s0 k = Inr sk
                       \<and> stateAt solve L G s0 (Suc k) = Inr s
                       \<and> ecart_relatif (fst sk) (fst s) = Inr c
                       \<and> fless c (Fin 0.001))
            else k = 1000 \<and> stateAt solve L G s0 1000 = Inr s))
   \<and> (map length a = map length b \<longrightarrow>
        ecart_relatif (map (map Fin) a) (map (map Fin) b) = Inr (relativeChange a b)
        \<and> relativeChange a b
          = (if (\<Sum>x\<leftarrow>concat b. x * x) = 0
             then (if (\<Sum>x\<leftarrow>concat (map2 (map2 (-)) a b). x * x) = 0 then NaN else PInf)
             else Fin (sqrt (\<Sum>x\<leftarrow>concat (map2 (map2 (-)) a b). x * x)
                       / sqrt (\<Sum>x\<leftarrow>concat b. x * x))))"
proof (intro conjI impI)
  have s0: "stateAt solve L G s0 0 = Inr s0" by simp
  have le: "0 \<le> max_iterations" by simp
  note loop = robustLoop_from [OF le s0]
  show "case robustLoop solve L G 0 s0 of
      Inl e \<Rightarrow>
        (\<exists>k < 1000. \<exists>sk. stateAt solve L G s0 k = Inr sk
           \<and> stateAt solve L G s0 (Suc k) = Inl e)
    | Inr (k, stopped, s) \<Rightarrow>
        k \<le> 1000
        \<and> (\<forall>j < k. \<exists>sj sj' c.
               stateAt solve L G s0 j = Inr sj \<and> stateAt solve L G s0 (Suc j) = Inr sj'
               \<and> ecart_relatif (fst sj) (fst sj') = Inr c
               \<and> \<not> (10 < j \<and> fless c (Fin 0.001)))
        \<and> (if stopped
            then k < 1000 \<and> 10 < k
                 \<and> (\<exists>sk c. stateAt solve L G s0 k = Inr sk
                       \<and> stateAt solve L G s0 (Suc k) = Inr s
                       \<and> ecart_relatif (fst sk) (fst s) = Inr c
                       \<and> fless c (Fin 0.001))
            else k = 1000 \<and> stateAt solve L G s0 1000 = Inr s)"
  proof (cases "robustLoop solve L G 0 s0")
    case (Inl e)
    with loop obtain k' sk where "k' < max_iterations" "stateAt solve L G s0 k' = Inr sk"
      "robustBody solve L G sk = Inl e"
      by auto
    then have "k' < 1000 \<and> stateAt solve L G s0 k' = Inr sk
        \<and> stateAt solve L G s0 (Suc k') = Inl e"
      by (simp add: max_iterations_def)
    then show ?thesis unfolding Inl sum.case by blast
  next
    case (Inr q)
    obtain k stopped s where q: "q = (k, stopped, s)" by (cases q)
    from loop [unfolded Inr q sum.case prod.case] have a: "k \<le> max_iterations"
      and b: "\<forall>j. 0 \<le> j \<and> j < k \<longrightarrow>
                   (\<exists>s s' c. stateAt solve L G s0 j = Inr s \<and> robustBody solve L G s = Inr (s', c)
                      \<and> \<not> (10 < j \<and> fless c (Fin epsilon)))"
      and c: "if stopped
                 then k < max_iterations
                      \<and> (\<exists>sk c. stateAt solve L G s0 k = Inr sk
                            \<and> robustBody solve L G sk = Inr (s, c)
                            \<and> 10 < k \<and> fless c (Fin epsilon))
                 else k = max_iterations \<and> stateAt solve L G s0 max_iterations = Inr s"
      by blast+
    have 1: "k \<le> 1000" using a by (simp add: max_iterations_def)
    have 2: "\<exists>sj sj' c.
               stateAt solve L G s0 j = Inr sj \<and> stateAt solve L G s0 (Suc j) = Inr sj'
               \<and> ecart_relatif (fst sj) (fst sj') = Inr c
               \<and> \<not> (10 < j \<and> fless c (Fin 0.001))" if "j < k" for j
    proof -
      from b that obtain sj sj' c where sj: "stateAt solve L G s0 j = Inr sj"
        and body: "robustBody solve L G sj = Inr (sj', c)"
        and no: "\<not> (10 < j \<and> fless c (Fin epsilon))"
        by blast
      from body have "ecart_relatif (fst sj) (fst sj') = Inr c" by (simp add: robustBody_Inr)
      moreover have "stateAt solve L G s0 (Suc j) = Inr sj'" by (rule stateAt_Suc_Inr [OF sj body])
      ultimately show ?thesis using sj no by (auto simp: epsilon_def)
    qed
    have 3: "if stopped
            then k < 1000 \<and> 10 < k
                 \<and> (\<exists>sk c. stateAt solve L G s0 k = Inr sk
                       \<and> stateAt solve L G s0 (Suc k) = Inr s
                       \<and> ecart_relatif (fst sk) (fst s) = Inr c
                       \<and> fless c (Fin 0.001))
            else k = 1000 \<and> stateAt solve L G s0 1000 = Inr s"
    proof (cases stopped)
      case True
      with c obtain sk c where k: "k < max_iterations" "10 < k"
        and sk: "stateAt solve L G s0 k = Inr sk"
        and body: "robustBody solve L G sk = Inr (s, c)"
        and f: "fless c (Fin epsilon)"
        by auto
      from body have "ecart_relatif (fst sk) (fst s) = Inr c" by (simp add: robustBody_Inr)
      moreover have "stateAt solve L G s0 (Suc k) = Inr s" by (rule stateAt_Suc_Inr [OF sk body])
      ultimately show ?thesis using True k sk f by (auto simp: epsilon_def max_iterations_def)
    next
      case False
      with c show ?thesis by (simp add: max_iterations_def)
    qed
    from 1 2 3 show ?thesis unfolding Inr q by simp
  qed
next
  assume "map length a = map length b"
  then show "ecart_relatif (map (map Fin) a) (map (map Fin) b) = Inr (relativeChange a b)"
    by (rule ecart_relatif_Fin)
next
  show "relativeChange a b
          = (if (\<Sum>x\<leftarrow>concat b. x * x) = 0
             then (if (\<Sum>x\<leftarrow>concat (map2 (map2 (-)) a b). x * x) = 0 then NaN else PInf)
             else Fin (sqrt (\<Sum>x\<leftarrow>concat (map2 (map2 (-)) a b). x * x)
                       / sqrt (\<Sum>x\<leftarrow>concat b. x * x)))"
    by (simp add: relativeChange_def Let_def)
qed

lemma robustLoop_fixed_point_break:
  assumes "robustBody solve L G s = Inr (s, c)" and "fless c (Fin epsilon)" and "k \<le> 11"
  shows "robustLoop solve L G k s = Inr (11, True, s)"
  using assms(3)
proof (induction "11 - k" arbitrary: k)
  case 0
  then have "k = 11" by simp
  with assms(1,2) show ?case
    by (simp add: robustLoop.simps [of _ _ _ 11] max_iterations_def)
next
  case (Suc n)
  then have "k < 11" "n = 11 - Suc k" "Suc k \<le> 11" by simp_all
  with Suc.hyps(1) [of "Suc k"] assms(1) show ?case
    by (simp add: robustLoop.simps [of _ _ _ k] max_iterations_def)
qed

lemma stateAt_fixed_point:
  "robustBody solve L G s = Inr (s, c) \<Longrightarrow> stateAt solve L G s n = Inr s"
  by (induction n) simp_all

lemma sqrt_25: "sqrt 25 = 5"
  by (rule real_sqrt_unique) simp_all

lemma sqrt_1000000: "sqrt 1000000 = 1000"
  by (rule real_sqrt_unique) simp_all

lemma robustBody_one:
  "robustBody solveOrthonormal [[Fin 1]] [[Fin 1]] ([[Fin 1]], [[Fin 0]], [[Fin 0]])
   = Inr (([[Fin 1]], [[Fin 0]], [[Fin 0]]), Fin 0)"
  by (simp add: robustBody_def robustStep_def ecart_relatif_def madd_def msub_def cwise_def
      sdiv_def smul_def bdcSvdSolve_def solveOrthonormal_def mmul_def mat_vec_def shrinkF_def
      shrink_coeff_def coeff_def nrows_def ncols_def mu_def fsum_def fsub_def frobenius_def
      fnorm_def)

lemma robustBody_zero:
  "robustBody solveOrthonormal [[Fin 1]] [[Fin 0]] ([[Fin 0]], [[Fin 0]], [[Fin 0]])
   = Inr (([[Fin 0]], [[Fin 0]], [[Fin 0]]), NaN)"
  by (simp add: robustBody_def robustStep_def ecart_relatif_def madd_def msub_def cwise_def
      sdiv_def smul_def bdcSvdSolve_def solveOrthonormal_def mmul_def mat_vec_def shrinkF_def
      shrink_coeff_def coeff_def nrows_def ncols_def mu_def fsum_def fsub_def frobenius_def
      fnorm_def infOfSign_def)

theorem robust_loop_bound_witness:
  "robustLoop solveOrthonormal [[Fin 1]] [[Fin 1]] 0 ([[Fin 1]], [[Fin 0]], [[Fin 0]])
     = Inr (11, True, ([[Fin 1]], [[Fin 0]], [[Fin 0]]))
   \<and> stateAt solveOrthonormal [[Fin 1]] [[Fin 1]] ([[Fin 1]], [[Fin 0]], [[Fin 0]]) 11
     = Inr ([[Fin 1]], [[Fin 0]], [[Fin 0]])
   \<and> ecart_relatif [[Fin 1]] [[Fin 1]] = Inr (Fin 0)
   \<and> fless (Fin 0) (Fin 0.001)
   \<and> robustLoop solveOrthonormal [[Fin 1]] [[Fin 0]] 0 ([[Fin 0]], [[Fin 0]], [[Fin 0]])
     = Inr (1000, False, ([[Fin 0]], [[Fin 0]], [[Fin 0]]))
   \<and> stateAt solveOrthonormal [[Fin 1]] [[Fin 0]] ([[Fin 0]], [[Fin 0]], [[Fin 0]]) 1000
     = Inr ([[Fin 0]], [[Fin 0]], [[Fin 0]])
   \<and> ecart_relatif [[Fin 0]] [[Fin 0]] = Inr NaN
   \<and> \<not> fless NaN (Fin 0.001)
   \<and> ecart_relatif [[Fin 1001]] [[Fin 1000]] = Inr (Fin (1 / 1000))
   \<and> \<not> fless (Fin (1 / 1000)) (Fin 0.001)
   \<and> ecart_relatif [[Fin 6, Fin 8]] [[Fin 3, Fin 4]] = Inr (Fin 1)"
proof -
  let ?one = "([[Fin 1]], [[Fin 0]], [[Fin 0]])"
  let ?zero = "([[Fin 0]], [[Fin 0]], [[Fin 0]])"
  have run1: "robustLoop solveOrthonormal [[Fin 1]] [[Fin 1]] 0 ?one = Inr (11, True, ?one)"
    by (rule robustLoop_fixed_point_break [OF robustBody_one]) (simp_all add: epsilon_def)
  have run2: "robustLoop solveOrthonormal [[Fin 1]] [[Fin 0]] 0 ?zero = Inr (1000, False, ?zero)"
    using robustLoop_fixed_point [OF robustBody_zero, of 0] by (simp add: max_iterations_def)
  note t1 = robust_loop_bound [of solveOrthonormal "[[Fin 1]]" "[[Fin 1]]" ?one "[[1]]" "[[1]]",
      unfolded run1 sum.case prod.case]
  note t2 = robust_loop_bound [of solveOrthonormal "[[Fin 1]]" "[[Fin 0]]" ?zero "[[0]]" "[[0]]",
      unfolded run2 sum.case prod.case]
  note t3 = robust_loop_bound [of solveOrthonormal "[[Fin 1]]" "[[Fin 0]]" ?zero
      "[[1001]]" "[[1000]]", THEN conjunct2]
  note t4 = robust_loop_bound [of solveOrthonormal "[[Fin 1]]" "[[Fin 0]]" ?zero
      "[[6, 8]]" "[[3, 4]]", THEN conjunct2]
  from t1 have a: "stateAt solveOrthonormal [[Fin 1]] [[Fin 1]] ?one 11 = Inr ?one"
    by (simp add: stateAt_fixed_point [OF robustBody_one])
  from t1 have b: "ecart_relatif [[Fin 1]] [[Fin 1]] = Inr (Fin 0)"
    by (simp add: relativeChange_def)
  from t2 have c: "stateAt solveOrthonormal [[Fin 1]] [[Fin 0]] ?zero 1000 = Inr ?zero"
    by simp
  from t2 have d: "ecart_relatif [[Fin 0]] [[Fin 0]] = Inr NaN"
    by (simp add: relativeChange_def)
  from t3 have e: "ecart_relatif [[Fin 1001]] [[Fin 1000]] = Inr (Fin (1 / 1000))"
    by (simp add: sqrt_1000000)
  from t4 have f: "ecart_relatif [[Fin 6, Fin 8]] [[Fin 3, Fin 4]] = Inr (Fin 1)"
    by (simp add: sqrt_25)
  from run1 a b run2 c d e f show ?thesis by simp
qed

section \<open>Ambient subtraction\<close>

lemma fsub_zero: "fsub x (Fin 0) = x"
  by (cases x) (simp_all add: fsub_def)

lemma image2PsMatrix_cong:
  assumes "rows a = rows b" and "cols a = cols b"
    and "\<And>i j. i < rows a \<Longrightarrow> j < cols a \<Longrightarrow> px a i j = px b i j"
  shows "image2PsMatrix a m = image2PsMatrix b m"
proof -
  have "map (\<lambda>i. case px a i j of (r, g, b) \<Rightarrow> [r, g, b])
            (filter (\<lambda>i. \<not> hasMask m \<or> px m i j > 0.7) [0..<rows a])
      = map (\<lambda>i. case px b i j of (r, g, b) \<Rightarrow> [r, g, b])
            (filter (\<lambda>i. \<not> hasMask m \<or> px m i j > 0.7) [0..<rows b])"
    if "j < cols a" for j
    unfolding assms(1) [symmetric] by (rule map_cong [OF refl]) (use that assms(3) in simp)
  then have "map (\<lambda>j. map (\<lambda>i. case px a i j of (r, g, b) \<Rightarrow> [r, g, b])
            (filter (\<lambda>i. \<not> hasMask m \<or> px m i j > 0.7) [0..<rows a])) [0..<cols a]
      = map (\<lambda>j. map (\<lambda>i. case px b i j of (r, g, b) \<Rightarrow> [r, g, b])
            (filter (\<lambda>i. \<not> hasMask m \<or> px m i j > 0.7) [0..<rows b])) [0..<cols b]"
    unfolding assms(2) [symmetric] by (intro map_cong [OF refl]) simp
  then show ?thesis unfolding image2PsMatrix_def by (rule arg_cong)
qed

lemma scaled_matrix_cong:
  assumes "rows a = rows b" and "cols a = cols b"
    and "\<And>i j. i < rows a \<Longrightarrow> j < cols a \<Longrightarrow> px a i j = px b i j"
  shows "fillPsMatrix dims (intensityScaling ints a) m
       = fillPsMatrix dims (intensityScaling ints b) m"
proof -
  obtain ir ig ib where ints: "ints = (ir, ig, ib)" by (metis prod_cases3)
  let ?f = "\<lambda>c. \<lambda>i j. case px c i j of (r, g, b) \<Rightarrow> (fdiv r ir, fdiv g ig, fdiv b ib)"
  have a: "intensityScaling ints a = a\<lparr>px := ?f a\<rparr>"
    and b: "intensityScaling ints b = b\<lparr>px := ?f b\<rparr>"
    by (simp_all add: intensityScaling_def ints)
  have "image2PsMatrix (a\<lparr>px := ?f a\<rparr>) m = image2PsMatrix (b\<lparr>px := ?f b\<rparr>) m"
    by (rule image2PsMatrix_cong) (simp_all add: assms)
  then have "fillPsMatrix dims (a\<lparr>px := ?f a\<rparr>) m = fillPsMatrix dims (b\<lparr>px := ?f b\<rparr>) m"
    by (simp add: fillPsMatrix_def assms(1,2))
  then show ?thesis by (simp only: a b)
qed

lemma processPicture_zero_ambiant:
  assumes "rows imageFloat = rows amb" and "cols imageFloat = cols amb"
    and "\<forall>i < rows amb. \<forall>j < cols amb. px amb i j = (Fin 0, Fin 0, Fin 0)"
  shows "processPicture intList m (Some amb) dims k imageFloat
         = processPicture intList m None dims k imageFloat"
proof -
  let ?s = "\<lparr>rows = rows imageFloat, cols = cols imageFloat,
              px = (\<lambda>i j. case (px imageFloat i j, px amb i j) of
                            ((r, g, bl), (r', g', bl')) \<Rightarrow>
                              (fsub r r', fsub g g', fsub bl bl'))\<rparr>"
  have sub: "imageSub imageFloat amb = Inr ?s" using assms(1,2) by (simp add: imageSub_def)
  have same: "px ?s i j = px imageFloat i j" if "i < rows ?s" "j < cols ?s" for i j
  proof -
    from that assms have "px amb i j = (Fin 0, Fin 0, Fin 0)" by simp
    then show ?thesis by (cases "px imageFloat i j") (simp add: fsub_zero)
  qed
  have sc: "fillPsMatrix dims (intensityScaling ints ?s) m
       = fillPsMatrix dims (intensityScaling ints imageFloat) m" for ints
  proof (rule scaled_matrix_cong)
    show "rows ?s = rows imageFloat" and "cols ?s = cols imageFloat" by simp_all
    show "px ?s i j = px imageFloat i j" if "i < rows ?s" "j < cols ?s" for i j
      using that by (rule same)
  qed
  show ?thesis
    unfolding processPicture_def option.case sub sum.case sc ..
qed

lemma readPictures_zero_ambiant:
  assumes "\<forall>im \<in> set imageList. rows im = rows amb \<and> cols im = cols amb"
    and "\<forall>i < rows amb. \<forall>j < cols amb. px amb i j = (Fin 0, Fin 0, Fin 0)"
  shows "readPictures intList m (Some amb) dims k imageList acc
         = readPictures intList m None dims k imageList acc"
  using assms(1)
proof (induction imageList arbitrary: k acc)
  case Nil
  show ?case by simp
next
  case (Cons im rest)
  obtain c g where acc: "acc = (c, g)" by (cases acc)
  from Cons.prems assms(2)
  have p: "processPicture intList m (Some amb) dims k im = processPicture intList m None dims k im"
    by (intro processPicture_zero_ambiant) simp_all
  from Cons.prems have "\<forall>im \<in> set rest. rows im = rows amb \<and> cols im = cols amb" by simp
  note IH = Cons.IH [OF this]
  show ?case unfolding acc readPictures.simps p
    by (cases "processPicture intList m None dims k im") (simp_all only: sum.case IH)
qed

text \<open>
  Claim C9. With an ambient picture of the size of the pictures and all of whose pixels
  are exactly zero, the solve builds the same two observation matrices as without
  ambient removal (and stops for the same reason where it builds none).
\<close>

theorem zero_ambiant:
  assumes "\<forall>im \<in> set imageList. rows im = rows amb \<and> cols im = cols amb"
    and "\<forall>i < rows amb. \<forall>j < cols amb. px amb i j = (Fin 0, Fin 0, Fin 0)"
  shows "observationMatrices nanMax imageList intList m (Some amb)
         = observationMatrices nanMax imageList intList m None"
  unfolding observationMatrices_def rawObservations_def readPictures_zero_ambiant [OF assms] ..

theorem zero_ambiant_witness:
  "observationMatrices propagateNaN
     [\<lparr>rows = 1, cols = 2, px = (\<lambda>i j. if j = 0 then (Fin 1, Fin 1, Fin 1) else (Fin 2, Fin 2, Fin 2))\<rparr>]
     [(Fin 2, Fin 2, Fin 2)]
     \<lparr>rows = 1, cols = 1, px = (\<lambda>i j. 1)\<rparr>
     (Some \<lparr>rows = 1, cols = 2, px = (\<lambda>i j. (Fin 0, Fin 0, Fin 0))\<rparr>)
   = observationMatrices propagateNaN
     [\<lparr>rows = 1, cols = 2, px = (\<lambda>i j. if j = 0 then (Fin 1, Fin 1, Fin 1) else (Fin 2, Fin 2, Fin 2))\<rparr>]
     [(Fin 2, Fin 2, Fin 2)]
     \<lparr>rows = 1, cols = 1, px = (\<lambda>i j. 1)\<rparr>
     None
   \<and> observationMatrices propagateNaN
     [\<lparr>rows = 1, cols = 2, px = (\<lambda>i j. if j = 0 then (Fin 1, Fin 1, Fin 1) else (Fin 2, Fin 2, Fin 2))\<rparr>]
     [(Fin 2, Fin 2, Fin 2)]
     \<lparr>rows = 1, cols = 1, px = (\<lambda>i j. 1)\<rparr>
     None
   = Inr ([[Fin (1/2), Fin (1/2), Fin (1/2)], [Fin 1, Fin 1, Fin 1]], [[Fin (1/2)], [Fin 1]])"
proof -
  let ?im = "\<lparr>rows = 1, cols = 2, px = (\<lambda>i j. if j = 0 then (Fin 1, Fin 1, Fin 1) else (Fin 2, Fin 2, Fin 2))\<rparr>"
  let ?amb = "\<lparr>rows = 1, cols = 2, px = (\<lambda>i j. (Fin 0, Fin 0, Fin 0))\<rparr>"
  have h1: "\<forall>im \<in> set [?im]. rows im = rows ?amb \<and> cols im = cols ?amb" by simp
  have h2: "\<forall>i < rows ?amb. \<forall>j < cols ?amb. px ?amb i j = (Fin 0, Fin 0, Fin 0)" by simp
  show ?thesis
    by (rule conjI, rule zero_ambiant [OF h1 h2]) code_simp
qed

section \<open>The solve\<close>

lemma fold_update_length:
  "length (fold (\<lambda>i N. N[f i := g i]) is N) = length N"
  by (induction "is" arbitrary: N) simp_all

lemma fold_update_other:
  "p \<notin> f ` set is \<Longrightarrow> fold (\<lambda>i N. N[f i := g i]) is N ! p = N ! p"
  by (induction "is" arbitrary: N) auto

lemma fold_update_hit:
  "distinct (map f is) \<Longrightarrow> i \<in> set is \<Longrightarrow> f i < length N \<Longrightarrow>
     fold (\<lambda>i N. N[f i := g i]) is N ! f i = g i"
proof (induction "is" arbitrary: N)
  case Nil
  then show ?case by simp
next
  case (Cons j js)
  show ?case
  proof (cases "i = j")
    case True
    with Cons.prems have "f j \<notin> f ` set js" by auto
    with True Cons.prems(3) show ?thesis by (simp add: fold_update_other)
  next
    case False
    with Cons show ?thesis by simp
  qed
qed

lemma currentIdx_Inr:
  "(currentIdx hm indexes i = Inr c)
   = ((hm \<longrightarrow> i < length indexes) \<and> c = (if hm then indexes ! i else i))"
  by (auto simp: currentIdx_def vector_at_def)

lemma length_normalizeCol: "length (normalizeCol v) = length v"
  by (simp add: normalizeCol_def)

lemma storeNormals_Inr:
  assumes "storeNormals hm indexes M is nv = Inr nv'" and "\<forall>c \<in> set nv. length c = n"
  shows "nv' = fold (\<lambda>i N. N[(if hm then indexes ! i else i) := normalizeCol (M ! i)]) is nv
       \<and> (\<forall>i \<in> set is. (if hm then indexes ! i else i) < length nv \<and> i < length M
              \<and> length (M ! i) = n)"
  using assms
proof (induction "is" arbitrary: nv)
  case Nil
  then show ?case by simp
next
  case (Cons i "is")
  let ?c = "if hm then indexes ! i else i"
  let ?nv = "nv[?c := normalizeCol (M ! i)]"
  from Cons.prems(1) have c: "currentIdx hm indexes i = Inr ?c"
    by (cases "currentIdx hm indexes i") (simp_all add: currentIdx_Inr)
  from Cons.prems(1) have chk: "?c < length nv" "i < length M" "length (M ! i) = length (nv ! ?c)"
    and rest: "storeNormals hm indexes M is ?nv = Inr nv'"
    unfolding storeNormals.simps c sum.case ncols_def by (simp_all split: if_splits)
  from chk(1) Cons.prems(2) have n: "length (nv ! ?c) = n" by simp
  have "\<forall>c \<in> set ?nv. length c = n"
  proof
    fix col assume "col \<in> set ?nv"
    then have "col \<in> insert (normalizeCol (M ! i)) (set nv)"
      using set_update_subset_insert by fast
    with Cons.prems(2) chk(3) n show "length col = n" by (auto simp: length_normalizeCol)
  qed
  from Cons.IH [OF rest this] chk n show ?case by simp
qed

lemma storeNormals_ok:
  assumes "\<forall>i \<in> set is. (hm \<longrightarrow> i < length indexes)
              \<and> (if hm then indexes ! i else i) < length nv \<and> i < length M \<and> length (M ! i) = n"
    and "\<forall>c \<in> set nv. length c = n"
  shows "\<exists>nv'. storeNormals hm indexes M is nv = Inr nv'"
  using assms
proof (induction "is" arbitrary: nv)
  case Nil
  then show ?case by simp
next
  case (Cons i "is")
  let ?c = "if hm then indexes ! i else i"
  let ?nv = "nv[?c := normalizeCol (M ! i)]"
  from Cons.prems(1) have c: "currentIdx hm indexes i = Inr ?c" by (simp add: currentIdx_Inr)
  from Cons.prems have chk: "?c < length nv" "i < length M" "length (M ! i) = n"
    "length (nv ! ?c) = n" by simp_all
  have col: "\<forall>c \<in> set ?nv. length c = n"
  proof
    fix col assume "col \<in> set ?nv"
    then have "col \<in> insert (normalizeCol (M ! i)) (set nv)"
      using set_update_subset_insert by fast
    with Cons.prems(2) chk(3) show "length col = n" by (auto simp: length_normalizeCol)
  qed
  from Cons.prems(1) have "\<forall>i \<in> set is. (hm \<longrightarrow> i < length indexes)
              \<and> (if hm then indexes ! i else i) < length ?nv \<and> i < length M \<and> length (M ! i) = n"
    by simp
  from Cons.IH [OF this col] chk show ?case
    unfolding storeNormals.simps c sum.case ncols_def by simp
qed

lemma storeAlbedo_shape:
  "storeAlbedo hm indexes val ch is av = Inr av' \<Longrightarrow> map length av' = map length av"
proof (induction "is" arbitrary: av)
  case Nil
  then show ?case by simp
next
  case (Cons i "is")
  let ?c = "if hm then indexes ! i else i"
  from Cons.prems have c: "currentIdx hm indexes i = Inr ?c"
    by (cases "currentIdx hm indexes i") (simp_all add: currentIdx_Inr)
  from Cons.prems obtain v where chk: "?c < length av"
    and rest: "storeAlbedo hm indexes val ch is (av[?c := (av ! ?c)[ch := v]]) = Inr av'"
    unfolding storeAlbedo.simps c sum.case ncols_def
    by (auto simp: andThen_eq_Inr split: if_splits)
  from Cons.IH [OF rest] have "map length av' = (map length av)[?c := length (av ! ?c)]"
    by (simp add: map_update)
  with chk show ?case by (simp add: list_update_same_conv)
qed

lemma storeAlbedo_ok:
  assumes "\<forall>i \<in> set is. (hm \<longrightarrow> i < length indexes)
              \<and> (if hm then indexes ! i else i) < length av
              \<and> (\<exists>v. val i (if hm then indexes ! i else i) = Inr v)"
    and "\<forall>c \<in> set av. ch < length c"
  shows "\<exists>av'. storeAlbedo hm indexes val ch is av = Inr av'"
  using assms
proof (induction "is" arbitrary: av)
  case Nil
  then show ?case by simp
next
  case (Cons i "is")
  let ?c = "if hm then indexes ! i else i"
  from Cons.prems(1) have c: "currentIdx hm indexes i = Inr ?c" by (simp add: currentIdx_Inr)
  from Cons.prems obtain v where chk: "?c < length av" "ch < length (av ! ?c)"
    and v: "val i ?c = Inr v" by auto
  let ?av = "av[?c := (av ! ?c)[ch := v]]"
  have col: "\<forall>c \<in> set ?av. ch < length c"
  proof
    fix col assume "col \<in> set ?av"
    then have "col \<in> insert ((av ! ?c)[ch := v]) (set av)"
      using set_update_subset_insert by fast
    with Cons.prems(2) chk(2) show "ch < length col" by auto
  qed
  from Cons.prems(1) have "\<forall>i \<in> set is. (hm \<longrightarrow> i < length indexes)
              \<and> (if hm then indexes ! i else i) < length ?av
              \<and> (\<exists>v. val i (if hm then indexes ! i else i) = Inr v)"
    by simp
  from Cons.IH [OF this col] chk v show ?case
    unfolding storeAlbedo.simps c sum.case ncols_def by simp
qed

lemma channels_shape:
  assumes "\<And>ch a a'. f ch a = Inr a' \<Longrightarrow> map length a' = map length a"
  shows "channels f chs av = Inr av' \<Longrightarrow> map length av' = map length av"
proof (induction chs arbitrary: av)
  case Nil
  then show ?case by simp
next
  case (Cons ch chs)
  from Cons.prems obtain a where a: "f ch av = Inr a" and rest: "channels f chs a = Inr av'"
    by (auto simp: andThen_eq_Inr)
  from Cons.IH [OF rest] assms [OF a] show ?case by simp
qed

lemma channels_ok:
  assumes "\<And>ch a. ch \<in> set chs \<Longrightarrow> map length a = map length av \<Longrightarrow> \<exists>a'. f ch a = Inr a'"
    and "\<And>ch a a'. f ch a = Inr a' \<Longrightarrow> map length a' = map length a"
  shows "\<exists>av'. channels f chs av = Inr av'"
  using assms(1)
proof (induction chs arbitrary: av)
  case Nil
  then show ?case by simp
next
  case (Cons ch chs)
  from Cons.prems [of ch av] obtain a where a: "f ch av = Inr a" by auto
  from assms(2) [OF a] have l: "map length a = map length av" .
  have "\<exists>av'. channels f chs a = Inr av'"
  proof (rule Cons.IH)
    fix ch' and b :: fmatrix
    assume "ch' \<in> set chs" "map length b = map length a"
    with l Cons.prems [of ch' b] show "\<exists>a'. f ch' b = Inr a'" by simp
  qed
  with a show ?case by simp
qed

lemma robustChannel_shape:
  "robustChannel n L C nv hm indexes maskSize ch a = Inr a' \<Longrightarrow> map length a' = map length a"
  unfolding robustChannel_def by (rule storeAlbedo_shape)

lemma plainChannel_shape:
  "plainChannel solve n L C hm indexes maskSize ch a = Inr a' \<Longrightarrow> map length a' = map length a"
  unfolding plainChannel_def by (auto simp: andThen_eq_Inr dest: storeAlbedo_shape)

lemma map_length_zeros: "map length (zeros r c) = replicate c r"
  by (simp add: zeros_def map_replicate_const)

lemma finalM_robust:
  "bdcSvdSolve solve L G = Inr M0 \<Longrightarrow> finalM solve True L G = robustM solve L G M0"
  by (simp add: finalM_def)

lemma finalM_plain:
  "bdcSvdSolve solve L G = Inr M0 \<Longrightarrow> finalM solve False L G = Inr M0"
  by (simp add: finalM_def)

lemma estimation_Inr:
  assumes est: "estimation solve isRobust n L C G hm indexes maskSize nPix = Inr (nv, av)"
    and dist: "distinct (map (\<lambda>i. if hm then indexes ! i else i) [0..<maskSize])"
  shows "\<exists>M. finalM solve isRobust L G = Inr M
           \<and> length nv = nPix
           \<and> (\<forall>q < maskSize. (if hm then indexes ! q else q) < nPix
                  \<and> nv ! (if hm then indexes ! q else q) = normalizeCol (M ! q)
                  \<and> length (M ! q) = ncols L)
           \<and> (\<forall>p. p \<notin> (\<lambda>i. if hm then indexes ! i else i) ` {..<maskSize} \<longrightarrow>
                  nv ! p = zeros (ncols L) nPix ! p)
           \<and> map length av = replicate nPix 3"
proof -
  let ?f = "\<lambda>i. if hm then indexes ! i else i"
  let ?Z = "zeros (ncols L) nPix"
  let ?store = "\<lambda>M N. fold (\<lambda>i N. N[?f i := normalizeCol (M ! i)]) [0..<maskSize] N"
  have Z: "\<forall>c \<in> set ?Z. length c = ncols L" "length ?Z = nPix" by (simp_all add: zeros_def)
  from est obtain M0 nv1 where M0: "bdcSvdSolve solve L G = Inr M0"
    and s1: "storeNormals hm indexes M0 [0..<maskSize] ?Z = Inr nv1"
    and rest: "(if isRobust
         then andThen (robustM solve L G M0) (\<lambda>M_robust.
              andThen (storeNormals hm indexes M_robust [0..<maskSize] nv1)
                (\<lambda>normalsVect'.
              andThen (channels (robustChannel n L C normalsVect' hm indexes maskSize)
                         [0, 1, 2] (zeros 3 nPix))
                (\<lambda>albedoVect. Inr (normalsVect', albedoVect))))
         else andThen (channels (plainChannel solve n L C hm indexes maskSize)
                         [0, 1, 2] (zeros 3 nPix))
                (\<lambda>albedoVect. Inr (nv1, albedoVect))) = Inr (nv, av)"
    unfolding estimation_def andThen_eq_Inr by blast
  from storeNormals_Inr [OF s1 Z(1)] have nv1: "nv1 = ?store M0 ?Z"
    and chk1: "\<forall>i \<in> set [0..<maskSize]. ?f i < length ?Z \<and> i < length M0
                 \<and> length (M0 ! i) = ncols L"
    by blast+
  have len: "length (?store M N) = length N" for M N by (rule fold_update_length)
  have hit: "?store M N ! ?f q = normalizeCol (M ! q)" if "q < maskSize" "?f q < length N"
    for M N q
    using fold_update_hit [of ?f "[0..<maskSize]" q N "\<lambda>i. normalizeCol (M ! i)"] dist that
    by simp
  have other: "?store M N ! p = N ! p" if "p \<notin> ?f ` {..<maskSize}" for M N p
    by (rule fold_update_other) (use that in \<open>simp add: lessThan_atLeast0\<close>)
  have col1: "\<forall>c \<in> set nv1. length c = ncols L"
  proof
    fix c assume "c \<in> set nv1"
    then obtain p where p: "p < length nv1" "c = nv1 ! p" by (auto simp: in_set_conv_nth)
    show "length c = ncols L"
    proof (cases "p \<in> ?f ` {..<maskSize}")
      case True
      then obtain q where "p = ?f q" "q \<in> {..<maskSize}" by (rule imageE)
      then have q: "q < maskSize" "p = ?f q" by simp_all
      with chk1 have "?f q < length ?Z" "length (M0 ! q) = ncols L" by simp_all
      with hit [OF q(1), of ?Z M0] p(2) q(2) nv1 show ?thesis
        by (simp add: length_normalizeCol)
    next
      case False
      from other [OF this, of M0 ?Z] p nv1 len [of M0 ?Z] Z show ?thesis by simp
    qed
  qed
  show ?thesis
  proof (cases isRobust)
    case False
    with rest obtain a where a: "channels (plainChannel solve n L C hm indexes maskSize)
                         [0, 1, 2] (zeros 3 nPix) = Inr a" and r: "nv = nv1" "av = a"
      by (auto simp: andThen_eq_Inr)
    have "map length a = map length (zeros 3 nPix)"
      by (rule channels_shape [OF _ a]) (rule plainChannel_shape)
    then have av: "map length av = replicate nPix 3" by (simp add: r map_length_zeros)
    have M: "finalM solve isRobust L G = Inr M0" using False by (simp add: finalM_plain [OF M0])
    have 1: "length nv = nPix" by (simp add: r nv1 len Z)
    have 2: "\<forall>q < maskSize. ?f q < nPix \<and> nv ! ?f q = normalizeCol (M0 ! q)
                  \<and> length (M0 ! q) = ncols L"
      using chk1 Z(2) hit [of _ ?Z M0] by (simp add: r nv1)
    have 3: "\<forall>p. p \<notin> ?f ` {..<maskSize} \<longrightarrow> nv ! p = ?Z ! p"
      using other [of _ M0 ?Z] by (simp add: r nv1)
    from M 1 2 3 av show ?thesis by blast
  next
    case True
    with rest obtain Mr nv2 a where Mr: "robustM solve L G M0 = Inr Mr"
      and s2: "storeNormals hm indexes Mr [0..<maskSize] nv1 = Inr nv2"
      and a: "channels (robustChannel n L C nv2 hm indexes maskSize) [0, 1, 2] (zeros 3 nPix)
              = Inr a"
      and r: "nv = nv2" "av = a"
      by (auto simp: andThen_eq_Inr)
    from storeNormals_Inr [OF s2 col1] have nv2: "nv2 = ?store Mr nv1"
      and chk2: "\<forall>i \<in> set [0..<maskSize]. ?f i < length nv1 \<and> i < length Mr
                 \<and> length (Mr ! i) = ncols L"
      by blast+
    have l1: "length nv1 = nPix" by (simp add: nv1 len Z)
    have "map length a = map length (zeros 3 nPix)"
      by (rule channels_shape [OF _ a]) (rule robustChannel_shape)
    then have av: "map length av = replicate nPix 3" by (simp add: r map_length_zeros)
    have M: "finalM solve isRobust L G = Inr Mr"
      using True Mr by (simp add: finalM_robust [OF M0])
    have 1: "length nv = nPix" by (simp add: r nv2 len l1)
    have 2: "\<forall>q < maskSize. ?f q < nPix \<and> nv ! ?f q = normalizeCol (Mr ! q)
                  \<and> length (Mr ! q) = ncols L"
      using chk2 l1 hit [of _ nv1 Mr] by (simp add: r nv2)
    have 3: "\<forall>p. p \<notin> ?f ` {..<maskSize} \<longrightarrow> nv ! p = ?Z ! p"
      using other [of _ Mr nv1] other [of _ M0 ?Z] by (simp add: r nv2 nv1)
    from M 1 2 3 av show ?thesis by blast
  qed
qed

lemma getIndMask_bound: "x \<in> set (getIndMask m) \<Longrightarrow> x < rows m * cols m"
  by (simp add: getIndMask_filter mult.commute)

lemma getIndMask_distinct: "distinct (getIndMask m)"
  by (simp add: getIndMask_filter)

lemma pictDims_hasMask:
  "pictDims ims m = Inr dims \<Longrightarrow> hasMask m \<Longrightarrow> dims = (rows m, cols m)"
  by (auto simp: pictDims_def)

lemma vectors_Inr:
  assumes "vectors solve nanMax ims ints L m amb rob = Inr (nv, av)"
  shows "\<exists>dims C G. pictDims ims m = Inr dims
           \<and> observationMatrices nanMax ims ints m amb = Inr (C, G)
           \<and> estimation solve rob (length ims) L C G (hasMask m)
                (if hasMask m then getIndMask m else []) (maskSizeOf m dims)
                (fst dims * snd dims) = Inr (nv, av)"
  using assms unfolding vectors_def by (auto simp: andThen_eq_Inr split: prod.splits)

lemma photometricStereo_Inr:
  assumes "photometricStereo solve nanMax ims ints L m amb rob = Inr (normals, albedo)"
  shows "\<exists>dims nv av av'. pictDims ims m = Inr dims
           \<and> vectors solve nanMax ims ints L m amb rob = Inr (nv, av)
           \<and> divideByMax nanMax av = Inr av'
           \<and> reshapeInImage nv dims = Inr normals
           \<and> reshapeInImage av' dims = Inr albedo"
  using assms unfolding photometricStereo_def by (auto simp: andThen_eq_Inr split: prod.splits)

lemma reshapeInImage_Inr:
  assumes "reshapeInImage M (R, C) = Inr im"
  shows "rows im = R \<and> cols im = C
       \<and> (\<forall>i j. px im i j = (M ! (j * R + i) ! 0, M ! (j * R + i) ! 1, M ! (j * R + i) ! 2))
       \<and> (\<forall>p < R * C. p < length M \<and> 3 \<le> length (M ! p))"
  using assms unfolding reshapeInImage_def
  by (auto simp: list_all_iff coeff_def ncols_def split: if_splits)

lemma pixel_index_bound: "i < R \<Longrightarrow> j < C \<Longrightarrow> j * R + i < R * C" for i j R C :: nat
proof -
  assume i: "i < R" and j: "j < C"
  from j have "Suc j \<le> C" by simp
  then have "Suc j * R \<le> C * R" by (rule mult_le_mono1)
  moreover from i have "j * R + i < Suc j * R" by simp
  ultimately show ?thesis by (simp add: mult.commute)
qed

lemma photometricStereo_normals:
  assumes "photometricStereo solve nanMax ims ints L m amb rob = Inr (normals, albedo)"
  shows "\<exists>R C imMat imMat_gray M.
      pictDims ims m = Inr (R, C)
    \<and> observationMatrices nanMax ims ints m amb = Inr (imMat, imMat_gray)
    \<and> finalM solve rob L imMat_gray = Inr M
    \<and> rows normals = R \<and> cols normals = C
    \<and> (\<forall>q < length (if hasMask m then getIndMask m else [0..<R * C]).
         (if hasMask m then getIndMask m else [0..<R * C]) ! q < R * C
         \<and> length (M ! q) = ncols L \<and> 3 \<le> ncols L
         \<and> px normals ((if hasMask m then getIndMask m else [0..<R * C]) ! q mod R)
                       ((if hasMask m then getIndMask m else [0..<R * C]) ! q div R)
           = (normalizeCol (M ! q) ! 0, normalizeCol (M ! q) ! 1, normalizeCol (M ! q) ! 2))
    \<and> (\<forall>i < R. \<forall>j < C.
         j * R + i \<notin> set (if hasMask m then getIndMask m else [0..<R * C]) \<longrightarrow>
         px normals i j = (Fin 0, Fin 0, Fin 0))"
proof -
  from photometricStereo_Inr [OF assms] obtain dims nv av av' where
    dims: "pictDims ims m = Inr dims"
    and vec: "vectors solve nanMax ims ints L m amb rob = Inr (nv, av)"
    and rn: "reshapeInImage nv dims = Inr normals"
    by blast
  obtain R C where RC: "dims = (R, C)" by (cases dims)
  let ?act = "if hasMask m then getIndMask m else [0..<R * C]"
  let ?idx = "if hasMask m then getIndMask m else []"
  let ?f = "\<lambda>i. if hasMask m then ?idx ! i else i"
  from vectors_Inr [OF vec] dims RC obtain imMat G where
    obs: "observationMatrices nanMax ims ints m amb = Inr (imMat, G)"
    and est: "estimation solve rob (length ims) L imMat G (hasMask m) ?idx
                (maskSizeOf m (R, C)) (R * C) = Inr (nv, av)"
    by auto
  have size: "maskSizeOf m (R, C) = length ?act" by (simp add: maskSizeOf_def)
  have f: "?f q = ?act ! q" if "q < length ?act" for q
    using that by (cases "hasMask m") simp_all
  have "map ?f [0..<length ?act] = map ((!) ?act) [0..<length ?act]"
    by (rule map_cong [OF refl]) (simp add: f)
  then have mapf: "map ?f [0..<length ?act] = ?act" by (simp only: map_nth)
  then have dist: "distinct (map ?f [0..<maskSizeOf m (R, C)])"
    unfolding size by (simp add: getIndMask_distinct)
  have img: "?f ` {..<length ?act} = set ?act"
    using arg_cong [OF mapf, of set] by (simp only: set_map set_upt atLeast0LessThan)
  from estimation_Inr [OF est dist] obtain M where
    M: "finalM solve rob L G = Inr M" and len: "length nv = R * C"
    and hit: "\<forall>q < length ?act. ?f q < R * C \<and> nv ! ?f q = normalizeCol (M ! q)
                 \<and> length (M ! q) = ncols L"
    and other: "\<forall>p. p \<notin> ?f ` {..<length ?act} \<longrightarrow> nv ! p = zeros (ncols L) (R * C) ! p"
    unfolding size by blast
  from reshapeInImage_Inr [OF rn [unfolded RC]] have
    r: "rows normals = R" "cols normals = C"
    and pxn: "\<And>i j. px normals i j
               = (nv ! (j * R + i) ! 0, nv ! (j * R + i) ! 1, nv ! (j * R + i) ! 2)"
    and three: "\<forall>p < R * C. p < length nv \<and> 3 \<le> length (nv ! p)"
    by blast+
  have a: "?act ! q < R * C \<and> length (M ! q) = ncols L \<and> 3 \<le> ncols L
         \<and> px normals (?act ! q mod R) (?act ! q div R)
           = (normalizeCol (M ! q) ! 0, normalizeCol (M ! q) ! 1, normalizeCol (M ! q) ! 2)"
    if q: "q < length ?act" for q
  proof -
    from hit q have "?f q < R * C \<and> nv ! ?f q = normalizeCol (M ! q)
                 \<and> length (M ! q) = ncols L" by blast
    then have h: "?act ! q < R * C" "nv ! (?act ! q) = normalizeCol (M ! q)"
      "length (M ! q) = ncols L" unfolding f [OF q] by blast+
    from three h(1,2,3) have "3 \<le> ncols L" by (auto simp: length_normalizeCol)
    moreover have "?act ! q div R * R + ?act ! q mod R = ?act ! q" by simp
    ultimately show ?thesis using h pxn [of "?act ! q mod R" "?act ! q div R"] by simp
  qed
  have b: "px normals i j = (Fin 0, Fin 0, Fin 0)"
    if "i < R" "j < C" "j * R + i \<notin> set ?act" for i j
  proof -
    from that(3) img have "j * R + i \<notin> ?f ` {..<length ?act}" by simp
    with other have "nv ! (j * R + i) = zeros (ncols L) (R * C) ! (j * R + i)" by blast
    moreover from pixel_index_bound [OF that(1,2)] have lt: "j * R + i < R * C" .
    ultimately have z: "nv ! (j * R + i) = replicate (ncols L) (Fin 0)" by (simp add: zeros_def)
    from three lt z have "3 \<le> ncols L" by auto
    with z pxn [of i j] show ?thesis by simp
  qed
  from dims RC obs M r a b show ?thesis by blast
qed

lemma length_image2PsMatrix:
  assumes "hasMask m \<Longrightarrow> rows im = rows m \<and> cols im = cols m"
  shows "length (image2PsMatrix im m) = maskSizeOf m (rows im, cols im)"
proof (cases "hasMask m")
  case True
  with assms show ?thesis
    by (simp add: image2PsMatrix_def maskSizeOf_def getIndMask_def length_concat comp_def)
next
  case False
  then show ?thesis
    by (simp add: image2PsMatrix_def maskSizeOf_def length_concat comp_def sum_list_triv)
qed

lemma image2PsMatrix_columns: "c \<in> set (image2PsMatrix im m) \<Longrightarrow> length c = 3"
  by (auto simp: image2PsMatrix_def split: prod.splits)

lemma processPicture_shape:
  assumes "processPicture intList m amb dims k im = Inr cp"
    and "hasMask m \<Longrightarrow> dims = (rows m, cols m)"
  shows "length cp = maskSizeOf m dims \<and> (\<forall>c \<in> set cp. length c = 3)"
proof -
  from assms(1) obtain scaled where "fillPsMatrix dims scaled m = Inr cp"
    by (auto simp: processPicture_def split: sum.splits)
  then have d: "(rows scaled, cols scaled) = dims" and cp: "cp = image2PsMatrix scaled m"
    by (auto simp: fillPsMatrix_def split: if_splits)
  have "length (image2PsMatrix scaled m) = maskSizeOf m (rows scaled, cols scaled)"
    by (rule length_image2PsMatrix) (use assms(2) d in auto)
  with cp d show ?thesis by (auto dest: image2PsMatrix_columns)
qed

lemma stackBlock_shape:
  assumes "length a = n" and "length b = n"
    and "\<forall>c \<in> set a. length c = p" and "\<forall>c \<in> set b. length c = q"
  shows "length (stackBlock a b) = n \<and> (\<forall>c \<in> set (stackBlock a b). length c = p + q)"
  using assms by (auto simp: stackBlock_def dest!: set_zip_leftD set_zip_rightD
      elim!: in_set_zipE)

lemma readPictures_shape:
  assumes "readPictures intList m amb dims k ims (C0, G0) = Inr (C, G)"
    and "hasMask m \<Longrightarrow> dims = (rows m, cols m)"
    and "length C0 = maskSizeOf m dims" and "length G0 = maskSizeOf m dims"
    and "\<forall>c \<in> set C0. length c = 3 * n0" and "\<forall>c \<in> set G0. length c = n0"
  shows "length C = maskSizeOf m dims \<and> length G = maskSizeOf m dims
       \<and> (\<forall>c \<in> set C. length c = 3 * (n0 + length ims))
       \<and> (\<forall>c \<in> set G. length c = n0 + length ims)"
  using assms(1,3,4,5,6)
proof (induction ims arbitrary: k C0 G0 n0)
  case Nil
  then show ?case by simp
next
  case (Cons im rest)
  from Cons.prems(1) obtain cp where
    cp: "processPicture intList m amb dims k im = Inr cp"
    and rest: "readPictures intList m amb dims (Suc k) rest
                 (stackBlock C0 cp, stackBlock G0 (grayRow cp)) = Inr (C, G)"
    by (auto split: sum.splits)
  from processPicture_shape [OF cp assms(2)]
  have l: "length cp = maskSizeOf m dims" and c3: "\<forall>c \<in> set cp. length c = 3" by blast+
  have g: "length (grayRow cp) = maskSizeOf m dims" "\<forall>c \<in> set (grayRow cp). length c = 1"
    using l by (auto simp: grayRow_def)
  from stackBlock_shape [OF Cons.prems(2) l Cons.prems(4) c3]
  have sc: "length (stackBlock C0 cp) = maskSizeOf m dims"
    "\<forall>c \<in> set (stackBlock C0 cp). length c = 3 * (Suc n0)" by simp_all
  from stackBlock_shape [OF Cons.prems(3) g(1) Cons.prems(5) g(2)]
  have sg: "length (stackBlock G0 (grayRow cp)) = maskSizeOf m dims"
    "\<forall>c \<in> set (stackBlock G0 (grayRow cp)). length c = Suc n0" by simp_all
  from Cons.IH [OF rest sc(1) sg(1) sc(2) sg(2)] show ?case by simp
qed

lemma divideByMax_shape:
  "divideByMax nanMax m = Inr m' \<Longrightarrow> map length m' = map length m \<and> m \<noteq> []"
  by (auto simp: divideByMax_def andThen_eq_Inr maxCoeff_def sdiv_def comp_def split: if_splits)

lemma map_length_eq_D:
  "map length a = map length b \<Longrightarrow> length a = length b \<and> ((\<forall>c \<in> set a. length c = n) = (\<forall>c \<in> set b. length c = n))"
proof -
  assume e: "map length a = map length b"
  from arg_cong [OF e, of length] have "length a = length b" by simp
  moreover from arg_cong [OF e, of set] have "length ` set a = length ` set b" by simp
  then have "(\<forall>c \<in> set a. length c = n) = (\<forall>c \<in> set b. length c = n)" by (metis (full_types) image_iff)
  ultimately show ?thesis by blast
qed

lemma observationMatrices_shape:
  assumes "observationMatrices nanMax ims ints m amb = Inr (C, G)"
  shows "\<exists>dims. pictDims ims m = Inr dims
          \<and> length C = maskSizeOf m dims \<and> length G = maskSizeOf m dims
          \<and> 0 < maskSizeOf m dims
          \<and> (\<forall>c \<in> set C. length c = 3 * length ims)
          \<and> (\<forall>c \<in> set G. length c = length ims)"
proof -
  from assms obtain C0 G0 where raw: "rawObservations ims ints m amb = Inr (C0, G0)"
    and c: "divideByMax nanMax C0 = Inr C" and g: "divideByMax nanMax G0 = Inr G"
    unfolding observationMatrices_def by (auto simp: andThen_eq_Inr split: sum.splits)
  from raw obtain dims where dims: "pictDims ims m = Inr dims"
    and r: "readPictures ints m amb dims 0 ims
          (replicate (maskSizeOf m dims) [], replicate (maskSizeOf m dims) []) = Inr (C0, G0)"
    unfolding rawObservations_def by (auto simp: andThen_eq_Inr)
  from readPictures_shape [OF r pictDims_hasMask [OF dims], of 0]
  have 0: "length C0 = maskSizeOf m dims" "length G0 = maskSizeOf m dims"
    "\<forall>c \<in> set C0. length c = 3 * length ims" "\<forall>c \<in> set G0. length c = length ims"
    by simp_all
  from divideByMax_shape [OF c] have mc: "map length C = map length C0" "C0 \<noteq> []" by blast+
  from divideByMax_shape [OF g] have mg: "map length G = map length G0" by blast
  from 0(1) mc(2) have pos: "0 < maskSizeOf m dims" by (cases C0) auto
  from map_length_eq_D [OF mc(1), of "3 * length ims"] 0(1,3)
  have 1: "length C = maskSizeOf m dims" "\<forall>c \<in> set C. length c = 3 * length ims" by simp_all
  from map_length_eq_D [OF mg, of "length ims"] 0(2,4)
  have 2: "length G = maskSizeOf m dims" "\<forall>c \<in> set G. length c = length ims" by simp_all
  from dims pos 1 2 show ?thesis by blast
qed

lemma storeNormals_columns:
  assumes "storeNormals hm indexes M is nv = Inr nv'" and "\<forall>c \<in> set nv. length c = n"
  shows "length nv' = length nv \<and> (\<forall>c \<in> set nv'. length c = n)"
  using assms
proof (induction "is" arbitrary: nv)
  case Nil
  then show ?case by simp
next
  case (Cons i "is")
  let ?c = "if hm then indexes ! i else i"
  let ?nv = "nv[?c := normalizeCol (M ! i)]"
  from Cons.prems(1) have c: "currentIdx hm indexes i = Inr ?c"
    by (cases "currentIdx hm indexes i") (simp_all add: currentIdx_Inr)
  from Cons.prems(1) have chk: "?c < length nv" "length (M ! i) = length (nv ! ?c)"
    and rest: "storeNormals hm indexes M is ?nv = Inr nv'"
    unfolding storeNormals.simps c sum.case ncols_def by (simp_all split: if_splits)
  from chk(1) Cons.prems(2) have n: "length (nv ! ?c) = n" by simp
  have "\<forall>c \<in> set ?nv. length c = n"
  proof
    fix col assume "col \<in> set ?nv"
    then have "col \<in> insert (normalizeCol (M ! i)) (set nv)"
      using set_update_subset_insert by fast
    with Cons.prems(2) chk(2) n show "length col = n" by (auto simp: length_normalizeCol)
  qed
  from Cons.IH [OF rest this] show ?case by simp
qed

lemma reshapeInImage_ok:
  assumes "R * C \<le> length M" and "\<forall>c \<in> set M. 3 \<le> length c"
  shows "\<exists>im. reshapeInImage M (R, C) = Inr im"
  using assms by (simp add: reshapeInImage_def list_all_iff ncols_def)

lemma replicate_columns:
  "map length a = replicate n k \<Longrightarrow> length a = n \<and> (\<forall>c \<in> set a. length c = k)"
proof -
  assume e: "map length a = replicate n k"
  from arg_cong [OF e, of length] have "length a = n" by simp
  moreover have "length c = k" if "c \<in> set a" for c
  proof -
    from that have "length c \<in> set (map length a)" by simp
    then show ?thesis unfolding e by simp
  qed
  ultimately show ?thesis by blast
qed

lemma plain_returns:
  assumes shape: "\<forall>b. length (solve L b) = length b \<and> (\<forall>c \<in> set (solve L b). length c = ncols L)"
    and obs: "observationMatrices nanMax ims ints m amb = Inr (C, G)"
    and rowsL: "nrows L = length ims" and three: "3 \<le> ncols L"
  shows "\<exists>normals albedo.
           photometricStereo solve nanMax ims ints L m amb False = Inr (normals, albedo)"
proof -
  from observationMatrices_shape [OF obs] obtain dims where dims: "pictDims ims m = Inr dims"
    and lC: "length C = maskSizeOf m dims" and lG: "length G = maskSizeOf m dims"
    and pos: "0 < maskSizeOf m dims"
    and cC: "\<forall>c \<in> set C. length c = 3 * length ims"
    and cG: "\<forall>c \<in> set G. length c = length ims"
    by blast
  obtain R Cn where RC: "dims = (R, Cn)" by (cases dims)
  let ?hm = "hasMask m"
  let ?idx = "if ?hm then getIndMask m else []"
  let ?f = "\<lambda>i. if ?hm then ?idx ! i else i"
  let ?n = "maskSizeOf m dims"
  let ?nPix = "R * Cn"
  let ?Z = "zeros (ncols L) ?nPix"
  have bound: "?f q < ?nPix" if "q < ?n" for q
  proof (cases ?hm)
    case True
    with that have "getIndMask m ! q \<in> set (getIndMask m)" by (simp add: maskSizeOf_def)
    from getIndMask_bound [OF this] pictDims_hasMask [OF dims True] RC True show ?thesis by simp
  next
    case False
    with that RC show ?thesis by (simp add: maskSizeOf_def)
  qed
  have idx: "?hm \<longrightarrow> q < length ?idx" if "q < ?n" for q
    using that by (cases ?hm) (simp_all add: maskSizeOf_def)
  have s1: "bdcSvdSolve solve L G = Inr (solve L G)"
    using cG rowsL by (simp add: bdcSvdSolve_def list_all_iff)
  let ?M = "solve L G"
  from shape lG have lM: "length ?M = ?n" and cM: "\<forall>c \<in> set ?M. length c = ncols L" by simp_all
  have Z: "\<forall>c \<in> set ?Z. length c = ncols L" "length ?Z = ?nPix" by (simp_all add: zeros_def)
  have "\<exists>nv. storeNormals ?hm ?idx ?M [0..<?n] ?Z = Inr nv"
  proof (rule storeNormals_ok [OF _ Z(1)], rule ballI)
    fix i assume "i \<in> set [0..<?n]"
    then have i: "i < ?n" by simp
    with lM cM have "length (?M ! i) = ncols L" by simp
    with i idx [OF i] bound [OF i] lM Z(2)
    show "(?hm \<longrightarrow> i < length ?idx) \<and> ?f i < length ?Z \<and> i < length ?M
            \<and> length (?M ! i) = ncols L"
      by simp
  qed
  then obtain nv where nv: "storeNormals ?hm ?idx ?M [0..<?n] ?Z = Inr nv" by blast
  from storeNormals_columns [OF nv Z(1)] Z(2) three
  have lnv: "length nv = ?nPix" and cnv: "\<forall>c \<in> set nv. 3 \<le> length c" by simp_all
  let ?ch = "plainChannel solve (length ims) L C ?hm ?idx ?n"
  have "\<exists>av. channels ?ch [0, 1, 2] (zeros 3 ?nPix) = Inr av"
  proof (rule channels_ok)
    fix ch :: nat and a :: fmatrix
    assume ch: "ch \<in> set [0, 1, 2]" and a: "map length a = map length (zeros 3 ?nPix)"
    from a have "map length a = replicate ?nPix 3" by (simp add: map_length_zeros)
    from replicate_columns [OF this] have la: "length a = ?nPix" and ca: "\<forall>c \<in> set a. length c = 3"
      by blast+
    let ?pv = "pixelValues_channel (length ims) ch C"
    have s: "bdcSvdSolve solve L ?pv = Inr (solve L ?pv)"
      using rowsL by (simp add: bdcSvdSolve_def list_all_iff pixelValues_channel_def)
    from shape lC have lMc: "ncols (solve L ?pv) = ?n"
      by (simp add: ncols_def pixelValues_channel_def)
    have "\<exists>a'. storeAlbedo ?hm ?idx
         (\<lambda>i c. if i < ncols (solve L ?pv) then Inr (fnorm (solve L ?pv ! i)) else Inl Undefined)
         ch [0..<?n] a = Inr a'"
    proof (rule storeAlbedo_ok)
      show "\<forall>i \<in> set [0..<?n]. (?hm \<longrightarrow> i < length ?idx) \<and> ?f i < length a
              \<and> (\<exists>v. (if i < ncols (solve L ?pv) then Inr (fnorm (solve L ?pv ! i))
                       else Inl Undefined) = Inr v)"
      proof
        fix i assume "i \<in> set [0..<?n]"
        then have i: "i < ?n" by simp
        with idx [OF i] bound [OF i] la lMc
        show "(?hm \<longrightarrow> i < length ?idx) \<and> ?f i < length a
              \<and> (\<exists>v. (if i < ncols (solve L ?pv) then Inr (fnorm (solve L ?pv ! i))
                       else Inl Undefined) = Inr v)"
          by simp
      qed
      from ch ca show "\<forall>c \<in> set a. ch < length c" by auto
    qed
    then show "\<exists>a'. ?ch ch a = Inr a'" by (simp add: plainChannel_def s)
  next
    fix ch :: nat and a a' :: fmatrix
    assume "?ch ch a = Inr a'"
    then show "map length a' = map length a" by (rule plainChannel_shape)
  qed
  then obtain av where av: "channels ?ch [0, 1, 2] (zeros 3 ?nPix) = Inr av" by blast
  have "map length av = map length (zeros 3 ?nPix)"
    by (rule channels_shape [OF _ av]) (rule plainChannel_shape)
  then have mav: "map length av = replicate ?nPix 3" by (simp add: map_length_zeros)
  from bound [OF pos] have nPix: "0 < ?nPix" by (rule order.strict_trans1 [OF le0])
  have est: "estimation solve False (length ims) L C G ?hm ?idx ?n ?nPix = Inr (nv, av)"
    unfolding estimation_def s1 andThen_Inr nv if_False av ..
  have fs: "fst dims * snd dims = R * Cn" by (simp add: RC)
  have vec: "vectors solve nanMax ims ints L m amb False = Inr (nv, av)"
    unfolding vectors_def dims andThen_Inr obs prod.case fs by (rule est)
  from replicate_columns [OF mav] have lav: "length av = ?nPix" and cav: "\<forall>c \<in> set av. length c = 3"
    by blast+
  from lav nPix cav have "concat av \<noteq> []" by (cases av) auto
  then have "\<exists>mx. maxCoeff nanMax av = Inr mx"
    unfolding maxCoeff_def by (cases "NaN \<in> set (concat av)") (simp_all only: if_False if_True, blast+)
  then obtain mx where mx: "maxCoeff nanMax av = Inr mx" by blast
  then have d: "divideByMax nanMax av = Inr (sdiv av mx)" by (simp add: divideByMax_def)
  from divideByMax_shape [OF d] mav have "map length (sdiv av mx) = replicate ?nPix 3" by simp
  from replicate_columns [OF this]
  have lav': "length (sdiv av mx) = ?nPix" and cav': "\<forall>c \<in> set (sdiv av mx). length c = 3"
    by blast+
  from reshapeInImage_ok [of R Cn nv] lnv cnv obtain normals where
    n: "reshapeInImage nv (R, Cn) = Inr normals" by auto
  from reshapeInImage_ok [of R Cn "sdiv av mx"] lav' cav' obtain albedo where
    a: "reshapeInImage (sdiv av mx) (R, Cn) = Inr albedo" by auto
  have "photometricStereo solve nanMax ims ints L m amb False = Inr (normals, albedo)"
    unfolding photometricStereo_def dims andThen_Inr vec prod.case d RC n a ..
  then show ?thesis by blast
qed

lemma plain_result:
  assumes shape: "\<forall>b. length (solve L b) = length b \<and> (\<forall>c \<in> set (solve L b). length c = ncols L)"
    and obs: "observationMatrices nanMax ims ints m amb = Inr (imMat, imMat_gray)"
    and rowsL: "nrows L = length ims" and three: "3 \<le> ncols L"
  shows "\<exists>normals albedo R C.
      photometricStereo solve nanMax ims ints L m amb False = Inr (normals, albedo)
    \<and> pictDims ims m = Inr (R, C) \<and> rows normals = R \<and> cols normals = C
    \<and> finalM solve False L imMat_gray = Inr (solve L imMat_gray)
    \<and> (\<forall>q < length (if hasMask m then getIndMask m else [0..<R * C]).
         px normals ((if hasMask m then getIndMask m else [0..<R * C]) ! q mod R)
                    ((if hasMask m then getIndMask m else [0..<R * C]) ! q div R)
         = (normalizeCol (solve L imMat_gray ! q) ! 0, normalizeCol (solve L imMat_gray ! q) ! 1,
            normalizeCol (solve L imMat_gray ! q) ! 2))
    \<and> (\<forall>i < R. \<forall>j < C.
         j * R + i \<notin> set (if hasMask m then getIndMask m else [0..<R * C]) \<longrightarrow>
         px normals i j = (Fin 0, Fin 0, Fin 0))"
proof -
  from plain_returns [where solve = solve and L = L, OF assms] obtain normals albedo where
    r: "photometricStereo solve nanMax ims ints L m amb False = Inr (normals, albedo)" by blast
  from photometricStereo_normals [OF r] obs obtain R C M where
    d: "pictDims ims m = Inr (R, C)" and M: "finalM solve False L imMat_gray = Inr M"
    and rc: "rows normals = R" "cols normals = C"
    and hit: "\<forall>q < length (if hasMask m then getIndMask m else [0..<R * C]).
         (if hasMask m then getIndMask m else [0..<R * C]) ! q < R * C
         \<and> length (M ! q) = ncols L \<and> 3 \<le> ncols L
         \<and> px normals ((if hasMask m then getIndMask m else [0..<R * C]) ! q mod R)
                       ((if hasMask m then getIndMask m else [0..<R * C]) ! q div R)
           = (normalizeCol (M ! q) ! 0, normalizeCol (M ! q) ! 1, normalizeCol (M ! q) ! 2)"
    and other: "\<forall>i < R. \<forall>j < C.
         j * R + i \<notin> set (if hasMask m then getIndMask m else [0..<R * C]) \<longrightarrow>
         px normals i j = (Fin 0, Fin 0, Fin 0)"
    by auto
  from observationMatrices_shape [OF obs] rowsL
  have "bdcSvdSolve solve L imMat_gray = Inr (solve L imMat_gray)"
    by (auto simp: bdcSvdSolve_def list_all_iff)
  from finalM_plain [OF this] M have "M = solve L imMat_gray" by simp
  with r d M rc hit other show ?thesis by blast
qed

lemma unit_triple:
  assumes "fnorm [x, y, z] = Fin n" and "n \<noteq> 0"
  shows "\<exists>a b c. (fdiv x (Fin n), fdiv y (Fin n), fdiv z (Fin n)) = (Fin a, Fin b, Fin c)
               \<and> a * a + b * b + c * c = 1"
proof -
  from fnorm_Fin_D [OF assms(1)] obtain xs
    where "[x, y, z] = map Fin xs \<and> n = sqrt (\<Sum>x\<leftarrow>xs. x * x)" ..
  then have xs: "[x, y, z] = map Fin xs" and n: "n = sqrt (\<Sum>x\<leftarrow>xs. x * x)"
    by (rule conjunct1, rule conjunct2)
  from xs obtain a b c where abc: "xs = [a, b, c]" by (auto simp: map_eq_Cons_conv)
  with xs have x: "x = Fin a" "y = Fin b" "z = Fin c" by simp_all
  from n abc have n2: "n * n = a * a + b * b + c * c" by (simp add: sum_squares_nonneg add_nonneg_nonneg)
  have "(a / n) * (a / n) + (b / n) * (b / n) + (c / n) * (c / n)
        = (a * a + b * b + c * c) / (n * n)"
    by (simp add: add_divide_distrib)
  also have "\<dots> = 1" unfolding n2 [symmetric] using assms(2) by simp
  finally show ?thesis using assms(2) x by simp
qed

lemma three_elements: "length v = 3 \<Longrightarrow> v = [v ! 0, v ! 1, v ! 2]"
  by (cases v; cases "tl v"; cases "tl (tl v)") auto

lemma pixelColumns_reshapeInImage:
  assumes "reshapeInImage M (R, C) = Inr im" and "map length M = replicate (R * C) 3"
  shows "pixelColumns im = M"
proof -
  from reshapeInImage_Inr [OF assms(1)] have r: "rows im = R" "cols im = C"
    and p: "\<And>i j. px im i j = (M ! (j * R + i) ! 0, M ! (j * R + i) ! 1, M ! (j * R + i) ! 2)"
    by blast+
  from replicate_columns [OF assms(2)] have l: "length M = R * C"
    and c: "\<forall>c \<in> set M. length c = 3" by blast+
  have "pixelColumns im
        = map (\<lambda>p. [M ! p ! 0, M ! p ! 1, M ! p ! 2])
              (concat (map (\<lambda>j. map (\<lambda>i. j * R + i) [0..<R]) [0..<C]))"
    unfolding pixelColumns_def r by (simp add: p map_concat comp_def)
  also have "\<dots> = map (\<lambda>p. [M ! p ! 0, M ! p ! 1, M ! p ! 2]) [0..<length M]"
    unfolding column_blocks l by (simp add: mult.commute)
  also have "\<dots> = map ((!) M) [0..<length M]"
  proof (rule map_cong [OF refl])
    fix p assume "p \<in> set [0..<length M]"
    with c have "length (M ! p) = 3" by simp
    from three_elements [OF this] show "[M ! p ! 0, M ! p ! 1, M ! p ! 2] = M ! p" by simp
  qed
  finally show ?thesis by (simp only: map_nth)
qed

lemma vectors_albedo_shape:
  assumes "vectors solve nanMax ims ints L m amb rob = Inr (nv, av)"
    and "pictDims ims m = Inr (R, C)"
  shows "map length av = replicate (R * C) 3"
proof -
  from vectors_Inr [OF assms(1)] assms(2) obtain imMat G where
    est: "estimation solve rob (length ims) L imMat G (hasMask m)
            (if hasMask m then getIndMask m else []) (maskSizeOf m (R, C)) (R * C) = Inr (nv, av)"
    by auto
  then obtain M0 nv1 where rest: "(if rob
         then andThen (robustM solve L G M0) (\<lambda>M_robust.
              andThen (storeNormals (hasMask m) (if hasMask m then getIndMask m else [])
                         M_robust [0..<maskSizeOf m (R, C)] nv1)
                (\<lambda>normalsVect'.
              andThen (channels (robustChannel (length ims) L imMat normalsVect' (hasMask m)
                          (if hasMask m then getIndMask m else []) (maskSizeOf m (R, C)))
                         [0, 1, 2] (zeros 3 (R * C)))
                (\<lambda>albedoVect. Inr (normalsVect', albedoVect))))
         else andThen (channels (plainChannel solve (length ims) L imMat (hasMask m)
                          (if hasMask m then getIndMask m else []) (maskSizeOf m (R, C)))
                         [0, 1, 2] (zeros 3 (R * C)))
                (\<lambda>albedoVect. Inr (nv1, albedoVect))) = Inr (nv, av)"
    unfolding estimation_def andThen_eq_Inr by blast
  have "map length av = map length (zeros 3 (R * C))"
  proof (cases rob)
    case True
    with rest obtain nv2 where "channels (robustChannel (length ims) L imMat nv2 (hasMask m)
                          (if hasMask m then getIndMask m else []) (maskSizeOf m (R, C)))
                         [0, 1, 2] (zeros 3 (R * C)) = Inr av"
      by (auto simp: andThen_eq_Inr)
    then show ?thesis by (rule channels_shape [rotated]) (rule robustChannel_shape)
  next
    case False
    with rest have "channels (plainChannel solve (length ims) L imMat (hasMask m)
                          (if hasMask m then getIndMask m else []) (maskSizeOf m (R, C)))
                         [0, 1, 2] (zeros 3 (R * C)) = Inr av"
      by (auto simp: andThen_eq_Inr)
    then show ?thesis by (rule channels_shape [rotated]) (rule plainChannel_shape)
  qed
  then show ?thesis by (simp add: map_length_zeros)
qed

section \<open>The only exception of the solve\<close>

lemma andThen_not_OutOfRange:
  assumes "m \<noteq> Inl OutOfRange" and "\<And>x. m = Inr x \<Longrightarrow> f x \<noteq> Inl OutOfRange"
  shows "andThen m f \<noteq> Inl OutOfRange"
  using assms by (cases m) simp_all

lemma andThen_eq_Inl:
  "(andThen m f = Inl e) = (m = Inl e \<or> (\<exists>x. m = Inr x \<and> f x = Inl e))"
  by (cases m) simp_all

lemma cwise_not_OutOfRange: "cwise f a b \<noteq> Inl OutOfRange"
  by (simp add: cwise_def)

lemma mat_vec_not_OutOfRange: "mat_vec a v \<noteq> Inl OutOfRange"
  by (simp add: mat_vec_def)

lemma mmul_not_OutOfRange: "mmul a b \<noteq> Inl OutOfRange"
  unfolding mmul_def
proof (induction b)
  case Nil
  show ?case by simp
next
  case (Cons v b)
  show ?case unfolding mapStop.simps
    by (intro andThen_not_OutOfRange mat_vec_not_OutOfRange Cons) simp
qed

lemma bdcSvdSolve_not_OutOfRange: "bdcSvdSolve solve a b \<noteq> Inl OutOfRange"
  by (simp add: bdcSvdSolve_def)

lemma shrinkF_not_OutOfRange: "shrinkF mat rho E \<noteq> Inl OutOfRange"
  by (simp add: shrinkF_def)

lemma medianF_not_OutOfRange: "medianF d \<noteq> Inl OutOfRange"
  by (simp add: medianF_def Let_def)

lemma divideByMax_not_OutOfRange: "divideByMax nanMax m \<noteq> Inl OutOfRange"
  by (simp add: divideByMax_def maxCoeff_def del: concat_eq_Nil_conv set_concat)

lemma reshapeInImage_not_OutOfRange: "reshapeInImage M dims \<noteq> Inl OutOfRange"
  by (cases dims) (simp add: reshapeInImage_def)

lemma robustStep_not_OutOfRange: "robustStep solve L G s \<noteq> Inl OutOfRange"
  unfolding robustStep_def madd_def msub_def
  by (cases s)
     (simp only: prod.case,
      intro andThen_not_OutOfRange cwise_not_OutOfRange bdcSvdSolve_not_OutOfRange
        mmul_not_OutOfRange shrinkF_not_OutOfRange, simp)

lemma ecart_relatif_not_OutOfRange: "ecart_relatif a b \<noteq> Inl OutOfRange"
  unfolding ecart_relatif_def msub_def
  by (intro andThen_not_OutOfRange cwise_not_OutOfRange) simp

lemma robustBody_not_OutOfRange: "robustBody solve L G s \<noteq> Inl OutOfRange"
  unfolding robustBody_def
  by (intro andThen_not_OutOfRange robustStep_not_OutOfRange ecart_relatif_not_OutOfRange) simp

lemma robustLoop_not_OutOfRange: "robustLoop solve L G k s \<noteq> Inl OutOfRange"
proof (induction "max_iterations - k" arbitrary: k s)
  case 0
  then show ?case by (simp add: robustLoop.simps [of _ _ _ k])
next
  case (Suc n)
  then have lt: "k < max_iterations" and n: "n = max_iterations - Suc k" by simp_all
  show ?case
  proof (cases "robustBody solve L G s")
    case (Inl e)
    with robustBody_not_OutOfRange [of solve L G s] lt show ?thesis
      by (simp add: robustLoop.simps [of _ _ _ k])
  next
    case (Inr p)
    obtain s' c where "p = (s', c)" by (cases p)
    with Inr lt Suc.hyps(1) [OF n, of s'] show ?thesis
      by (simp add: robustLoop.simps [of _ _ _ k])
  qed
qed

lemma robustM_not_OutOfRange: "robustM solve L G M \<noteq> Inl OutOfRange"
  unfolding robustM_def msub_def
  by (intro andThen_not_OutOfRange mmul_not_OutOfRange cwise_not_OutOfRange
        robustLoop_not_OutOfRange)
     (simp split: prod.splits)

lemma storeNormals_not_OutOfRange:
  assumes "hm \<longrightarrow> (\<forall>i \<in> set is. i < length indexes)"
  shows "storeNormals hm indexes M is nv \<noteq> Inl OutOfRange"
  using assms
proof (induction "is" arbitrary: nv)
  case Nil
  show ?case by simp
next
  case (Cons i "is")
  then have c: "currentIdx hm indexes i = Inr (if hm then indexes ! i else i)"
    by (simp add: currentIdx_Inr)
  from Cons have "storeNormals hm indexes M is nv' \<noteq> Inl OutOfRange" for nv' by simp
  then show ?case unfolding storeNormals.simps c sum.case by simp
qed

lemma storeAlbedo_not_OutOfRange:
  assumes "hm \<longrightarrow> (\<forall>i \<in> set is. i < length indexes)"
    and "\<And>i c. val i c \<noteq> Inl OutOfRange"
  shows "storeAlbedo hm indexes val ch is av \<noteq> Inl OutOfRange"
  using assms(1)
proof (induction "is" arbitrary: av)
  case Nil
  show ?case by simp
next
  case (Cons i "is")
  then have c: "currentIdx hm indexes i = Inr (if hm then indexes ! i else i)"
    by (simp add: currentIdx_Inr)
  from Cons have r: "storeAlbedo hm indexes val ch is av' \<noteq> Inl OutOfRange" for av' by simp
  show ?case unfolding storeAlbedo.simps c sum.case
    by (simp add: andThen_eq_Inl assms(2) r)
qed

lemma channels_not_OutOfRange:
  assumes "\<And>ch a. f ch a \<noteq> Inl OutOfRange"
  shows "channels f chs av \<noteq> Inl OutOfRange"
proof (induction chs arbitrary: av)
  case Nil
  show ?case by simp
next
  case (Cons ch chs)
  show ?case unfolding channels.simps
    by (intro andThen_not_OutOfRange assms Cons)
qed

lemma robustAlbedo_not_OutOfRange: "robustAlbedo L currentI normal \<noteq> Inl OutOfRange"
  unfolding robustAlbedo_def
  by (intro andThen_not_OutOfRange mat_vec_not_OutOfRange) (simp add: medianF_not_OutOfRange)

lemma estimation_not_OutOfRange:
  assumes "hm \<longrightarrow> maskSize \<le> length indexes"
  shows "estimation solve rob n L C G hm indexes maskSize nPix \<noteq> Inl OutOfRange"
proof -
  from assms have idx: "hm \<longrightarrow> (\<forall>i \<in> set [0..<maskSize]. i < length indexes)" by auto
  note store = storeNormals_not_OutOfRange [OF idx]
  have rc: "robustChannel n L C nv hm indexes maskSize ch a \<noteq> Inl OutOfRange" for nv ch a
    unfolding robustChannel_def
    by (rule storeAlbedo_not_OutOfRange [OF idx]) (simp add: robustAlbedo_not_OutOfRange)
  have pc: "plainChannel solve n L C hm indexes maskSize ch a \<noteq> Inl OutOfRange" for ch a
    unfolding plainChannel_def
    by (intro andThen_not_OutOfRange bdcSvdSolve_not_OutOfRange
          storeAlbedo_not_OutOfRange [OF idx]) simp
  have rcs: "channels (robustChannel n L C nv hm indexes maskSize) chs a \<noteq> Inl OutOfRange"
    for nv chs a by (rule channels_not_OutOfRange) (rule rc)
  have pcs: "channels (plainChannel solve n L C hm indexes maskSize) chs a \<noteq> Inl OutOfRange"
    for chs a by (rule channels_not_OutOfRange) (rule pc)
  show ?thesis
    unfolding estimation_def
    by (simp add: andThen_eq_Inl bdcSvdSolve_not_OutOfRange store robustM_not_OutOfRange
          rcs pcs del: channels.simps)
qed

lemma rawObservations_pictDims:
  "pictDims ims m = Inl e \<Longrightarrow> observationMatrices nanMax ims ints m amb = Inl e"
  by (simp add: observationMatrices_def rawObservations_def)

lemma only_exception:
  "(photometricStereo solve nanMax ims ints L m amb rob = Inl OutOfRange)
   = (observationMatrices nanMax ims ints m amb = Inl OutOfRange)"
proof (cases "pictDims ims m")
  case (Inl e)
  then show ?thesis
    by (simp add: photometricStereo_def rawObservations_pictDims)
next
  case (Inr dims)
  show ?thesis
  proof (cases "observationMatrices nanMax ims ints m amb")
    case (Inl e)
    with Inr show ?thesis by (simp add: photometricStereo_def vectors_def)
  next
    case obs: (Inr CG)
    obtain C G where CG: "CG = (C, G)" by (cases CG)
    let ?est = "estimation solve rob (length ims) L C G (hasMask m)
           (if hasMask m then getIndMask m else [])
           (maskSizeOf m dims) (fst dims * snd dims)"
    have e: "?est \<noteq> Inl OutOfRange"
      by (rule estimation_not_OutOfRange) (simp add: maskSizeOf_def)
    have v: "vectors solve nanMax ims ints L m amb rob = ?est"
      by (simp add: vectors_def Inr obs CG)
    have "photometricStereo solve nanMax ims ints L m amb rob \<noteq> Inl OutOfRange"
      unfolding photometricStereo_def Inr andThen_Inr v
      by (simp add: andThen_eq_Inl e divideByMax_not_OutOfRange reshapeInImage_not_OutOfRange
            split: prod.splits)
    with obs show ?thesis by simp
  qed
qed

section \<open>Normal estimation\<close>

lemma normalAt_plain:
  assumes shape: "\<forall>b. length (solve L b) = length b \<and> (\<forall>c \<in> set (solve L b). length c = ncols L)"
    and obs: "observationMatrices nanMax ims ints m amb = Inr (imMat, imMat_gray)"
    and rowsL: "nrows L = length ims" and three: "3 \<le> ncols L"
    and dims: "pictDims ims m = Inr (R, C)"
    and q: "q < length (if hasMask m then getIndMask m else [0..<R * C])"
    and p: "(if hasMask m then getIndMask m else [0..<R * C]) ! q = p"
  shows "normalAt (photometricStereo solve nanMax ims ints L m amb False) (p mod R) (p div R)
         = Inr (normalizeCol (solve L imMat_gray ! q) ! 0, normalizeCol (solve L imMat_gray ! q) ! 1,
                normalizeCol (solve L imMat_gray ! q) ! 2)"
proof -
  from plain_result [where solve = solve and L = L, OF shape obs rowsL three] dims
  obtain normals albedo where
    r: "photometricStereo solve nanMax ims ints L m amb False = Inr (normals, albedo)"
    and hit: "\<forall>q < length (if hasMask m then getIndMask m else [0..<R * C]).
         px normals ((if hasMask m then getIndMask m else [0..<R * C]) ! q mod R)
                    ((if hasMask m then getIndMask m else [0..<R * C]) ! q div R)
         = (normalizeCol (solve L imMat_gray ! q) ! 0, normalizeCol (solve L imMat_gray ! q) ! 1,
            normalizeCol (solve L imMat_gray ! q) ! 2)"
    by auto
  from hit q have "px normals ((if hasMask m then getIndMask m else [0..<R * C]) ! q mod R)
                    ((if hasMask m then getIndMask m else [0..<R * C]) ! q div R)
         = (normalizeCol (solve L imMat_gray ! q) ! 0, normalizeCol (solve L imMat_gray ! q) ! 1,
            normalizeCol (solve L imMat_gray ! q) ! 2)"
    by blast
  then show ?thesis unfolding p by (simp add: normalAt_def r)
qed

lemma sqrt_25_16: "sqrt (25 / 16) = 5 / 4"
  by (rule real_sqrt_unique) (simp_all add: power2_eq_square)

lemma solveOrthonormal_shape:
  "\<forall>b. length (solveOrthonormal L b) = length b
       \<and> (\<forall>c \<in> set (solveOrthonormal L b). length c = ncols L)"
  by (auto simp: solveOrthonormal_def ncols_def)

lemma unlit_obs:
  "observationMatrices propagateNaN
     [\<lparr>rows = 1, cols = 2, px = (\<lambda>i j. (Fin 0, Fin 0, Fin 0))\<rparr>,
      \<lparr>rows = 1, cols = 2, px = (\<lambda>i j. (Fin 0, Fin 0, Fin 0))\<rparr>,
      \<lparr>rows = 1, cols = 2, px = (\<lambda>i j. if j = 0 then (Fin 1, Fin 1, Fin 1) else (Fin 0, Fin 0, Fin 0))\<rparr>]
     [(Fin 1, Fin 1, Fin 1), (Fin 1, Fin 1, Fin 1), (Fin 1, Fin 1, Fin 1)]
     \<lparr>rows = 1, cols = 1, px = (\<lambda>i j. 1)\<rparr> None
   = Inr ([[Fin 0, Fin 0, Fin 0, Fin 0, Fin 0, Fin 0, Fin 1, Fin 1, Fin 1],
           [Fin 0, Fin 0, Fin 0, Fin 0, Fin 0, Fin 0, Fin 0, Fin 0, Fin 0]],
          [[Fin 0, Fin 0, Fin 1], [Fin 0, Fin 0, Fin 0]])"
  by code_simp

lemma unlit_dims:
  "pictDims
     [\<lparr>rows = 1, cols = 2, px = (\<lambda>i j. (Fin 0, Fin 0, Fin 0))\<rparr>,
      \<lparr>rows = 1, cols = 2, px = (\<lambda>i j. (Fin 0, Fin 0, Fin 0))\<rparr>,
      \<lparr>rows = 1, cols = 2, px = (\<lambda>i j. if j = 0 then (Fin 1, Fin 1, Fin 1) else (Fin 0, Fin 0, Fin 0))\<rparr>]
     \<lparr>rows = 1, cols = 1, px = (\<lambda>i j. 1)\<rparr> = Inr (1, 2)"
  by code_simp

lemma unlit_solve:
  "solveOrthonormal [[Fin 1, Fin 0, Fin 0], [Fin 0, Fin 1, Fin 0], [Fin 0, Fin 0, Fin 1]]
     [[Fin 0, Fin 0, Fin 1], [Fin 0, Fin 0, Fin 0]]
   = [[Fin 0, Fin 0, Fin 1], [Fin 0, Fin 0, Fin 0]]"
  by code_simp

lemma unlit_normal: "normalizeCol [Fin 0, Fin 0, Fin 0] = [NaN, NaN, NaN]"
  by (simp add: normalizeCol_def fnorm_def fsum_def infOfSign_def)

lemma ambient_obs:
  "observationMatrices propagateNaN
     [\<lparr>rows = 1, cols = 1, px = (\<lambda>i j. (Fin 1, Fin 1, Fin 1))\<rparr>]
     [(Fin 1, Fin 1, Fin 1)]
     \<lparr>rows = 1, cols = 1, px = (\<lambda>i j. 1)\<rparr> None
   = Inr ([[Fin 1, Fin 1, Fin 1]], [[Fin 1]])"
  by code_simp

lemma one_picture_dims:
  "pictDims [\<lparr>rows = 1, cols = 1, px = (\<lambda>i j. (Fin 1, Fin 1, Fin 1))\<rparr>]
     \<lparr>rows = 1, cols = 1, px = (\<lambda>i j. 1)\<rparr> = Inr (1, 1)"
  by code_simp

lemma ambient_solve:
  "solveOrthonormal
     [[Fin 0], [Fin 0], [Fin 0], [Fin 1], [Fin 0], [Fin 0], [Fin 0], [Fin 0], [Fin 0]] [[Fin 1]]
   = [[Fin 0, Fin 0, Fin 0, Fin 1, Fin 0, Fin 0, Fin 0, Fin 0, Fin 0]]"
  by code_simp

lemma ambient_norm:
  "fnorm [Fin 0, Fin 0, Fin 0, Fin 1, Fin 0, Fin 0, Fin 0, Fin 0, Fin 0] = Fin 1"
  by (simp add: fnorm_def fsum_def)

text \<open>
  Claim C1, as the specification states it. (a) A selected pixel whose solved column has
  norm exactly zero gets the zero vector: three pictures under the lights (1,0,0),
  (0,1,0) and (0,0,1), no mask, the second pixel black in all three; its solved column
  is (0,0,0), the source divides it by its norm 0, and the three components of the pixel
  of the normal map are NaN. (b) A normal of unit length for a solved column of norm not
  zero: one picture and a light matrix of nine columns (second-order spherical
  harmonics) whose row is the fourth unit vector; the solved column is that vector, of
  norm 1, and the pixel of the normal map, which receives the first three of its nine
  normalised coefficients, is (0,0,0).
\<close>

theorem unit_normals_counterexample:
  "normalAt (photometricStereo solveOrthonormal propagateNaN
     [\<lparr>rows = 1, cols = 2, px = (\<lambda>i j. (Fin 0, Fin 0, Fin 0))\<rparr>,
      \<lparr>rows = 1, cols = 2, px = (\<lambda>i j. (Fin 0, Fin 0, Fin 0))\<rparr>,
      \<lparr>rows = 1, cols = 2, px = (\<lambda>i j. if j = 0 then (Fin 1, Fin 1, Fin 1) else (Fin 0, Fin 0, Fin 0))\<rparr>]
     [(Fin 1, Fin 1, Fin 1), (Fin 1, Fin 1, Fin 1), (Fin 1, Fin 1, Fin 1)]
     [[Fin 1, Fin 0, Fin 0], [Fin 0, Fin 1, Fin 0], [Fin 0, Fin 0, Fin 1]]
     \<lparr>rows = 1, cols = 1, px = (\<lambda>i j. 1)\<rparr> None False) 0 1
   = Inr (NaN, NaN, NaN)
   \<and> fnorm (solveOrthonormal [[Fin 1, Fin 0, Fin 0], [Fin 0, Fin 1, Fin 0], [Fin 0, Fin 0, Fin 1]]
             [[Fin 0, Fin 0, Fin 1], [Fin 0, Fin 0, Fin 0]] ! 1) = Fin 0
   \<and> normalAt (photometricStereo solveOrthonormal propagateNaN
     [\<lparr>rows = 1, cols = 1, px = (\<lambda>i j. (Fin 1, Fin 1, Fin 1))\<rparr>]
     [(Fin 1, Fin 1, Fin 1)]
     [[Fin 0], [Fin 0], [Fin 0], [Fin 1], [Fin 0], [Fin 0], [Fin 0], [Fin 0], [Fin 0]]
     \<lparr>rows = 1, cols = 1, px = (\<lambda>i j. 1)\<rparr> None False) 0 0
   = Inr (Fin 0, Fin 0, Fin 0)
   \<and> fnorm (solveOrthonormal
             [[Fin 0], [Fin 0], [Fin 0], [Fin 1], [Fin 0], [Fin 0], [Fin 0], [Fin 0], [Fin 0]]
             [[Fin 1]] ! 0) = Fin 1"
proof -
  let ?m = "\<lparr>rows = 1, cols = 1, px = (\<lambda>i j. 1::real)\<rparr>"
  have a: "normalAt (photometricStereo solveOrthonormal propagateNaN
     [\<lparr>rows = 1, cols = 2, px = (\<lambda>i j. (Fin 0, Fin 0, Fin 0))\<rparr>,
      \<lparr>rows = 1, cols = 2, px = (\<lambda>i j. (Fin 0, Fin 0, Fin 0))\<rparr>,
      \<lparr>rows = 1, cols = 2, px = (\<lambda>i j. if j = 0 then (Fin 1, Fin 1, Fin 1) else (Fin 0, Fin 0, Fin 0))\<rparr>]
     [(Fin 1, Fin 1, Fin 1), (Fin 1, Fin 1, Fin 1), (Fin 1, Fin 1, Fin 1)]
     [[Fin 1, Fin 0, Fin 0], [Fin 0, Fin 1, Fin 0], [Fin 0, Fin 0, Fin 1]]
     ?m None False) (1 mod 1) (1 div 1)
   = Inr (normalizeCol (solveOrthonormal
            [[Fin 1, Fin 0, Fin 0], [Fin 0, Fin 1, Fin 0], [Fin 0, Fin 0, Fin 1]]
            [[Fin 0, Fin 0, Fin 1], [Fin 0, Fin 0, Fin 0]] ! 1) ! 0,
          normalizeCol (solveOrthonormal
            [[Fin 1, Fin 0, Fin 0], [Fin 0, Fin 1, Fin 0], [Fin 0, Fin 0, Fin 1]]
            [[Fin 0, Fin 0, Fin 1], [Fin 0, Fin 0, Fin 0]] ! 1) ! 1,
          normalizeCol (solveOrthonormal
            [[Fin 1, Fin 0, Fin 0], [Fin 0, Fin 1, Fin 0], [Fin 0, Fin 0, Fin 1]]
            [[Fin 0, Fin 0, Fin 1], [Fin 0, Fin 0, Fin 0]] ! 1) ! 2)"
    by (rule normalAt_plain [OF solveOrthonormal_shape unlit_obs _ _ unlit_dims])
       (simp_all add: nrows_def ncols_def hasMask_def)
  have b: "normalAt (photometricStereo solveOrthonormal propagateNaN
     [\<lparr>rows = 1, cols = 1, px = (\<lambda>i j. (Fin 1, Fin 1, Fin 1))\<rparr>]
     [(Fin 1, Fin 1, Fin 1)]
     [[Fin 0], [Fin 0], [Fin 0], [Fin 1], [Fin 0], [Fin 0], [Fin 0], [Fin 0], [Fin 0]]
     ?m None False) (0 mod 1) (0 div 1)
   = Inr (normalizeCol (solveOrthonormal
            [[Fin 0], [Fin 0], [Fin 0], [Fin 1], [Fin 0], [Fin 0], [Fin 0], [Fin 0], [Fin 0]]
            [[Fin 1]] ! 0) ! 0,
          normalizeCol (solveOrthonormal
            [[Fin 0], [Fin 0], [Fin 0], [Fin 1], [Fin 0], [Fin 0], [Fin 0], [Fin 0], [Fin 0]]
            [[Fin 1]] ! 0) ! 1,
          normalizeCol (solveOrthonormal
            [[Fin 0], [Fin 0], [Fin 0], [Fin 1], [Fin 0], [Fin 0], [Fin 0], [Fin 0], [Fin 0]]
            [[Fin 1]] ! 0) ! 2)"
    by (rule normalAt_plain [OF solveOrthonormal_shape ambient_obs _ _ one_picture_dims])
       (simp_all add: nrows_def ncols_def hasMask_def)
  from a b show ?thesis
    unfolding unlit_solve ambient_solve
    by (simp add: unlit_normal normalizeCol_def ambient_norm fnorm_def fsum_def infOfSign_def)
qed

lemma masked_obs:
  "observationMatrices propagateNaN
     [\<lparr>rows = 1, cols = 2, px = (\<lambda>i j. if j = 0 then (Fin 3, Fin 3, Fin 3) else (Fin 1, Fin 1, Fin 1))\<rparr>,
      \<lparr>rows = 1, cols = 2, px = (\<lambda>i j. if j = 0 then (Fin 0, Fin 0, Fin 0) else (Fin 1, Fin 1, Fin 1))\<rparr>,
      \<lparr>rows = 1, cols = 2, px = (\<lambda>i j. if j = 0 then (Fin 4, Fin 4, Fin 4) else (Fin 1, Fin 1, Fin 1))\<rparr>]
     [(Fin 1, Fin 1, Fin 1), (Fin 1, Fin 1, Fin 1), (Fin 1, Fin 1, Fin 1)]
     \<lparr>rows = 1, cols = 2, px = (\<lambda>i j. if j = 0 then 1 else 0)\<rparr> None
   = Inr ([[Fin (3/4), Fin (3/4), Fin (3/4), Fin 0, Fin 0, Fin 0, Fin 1, Fin 1, Fin 1]],
          [[Fin (3/4), Fin 0, Fin 1]])"
  by code_simp

lemma masked_dims:
  "pictDims
     [\<lparr>rows = 1, cols = 2, px = (\<lambda>i j. if j = 0 then (Fin 3, Fin 3, Fin 3) else (Fin 1, Fin 1, Fin 1))\<rparr>,
      \<lparr>rows = 1, cols = 2, px = (\<lambda>i j. if j = 0 then (Fin 0, Fin 0, Fin 0) else (Fin 1, Fin 1, Fin 1))\<rparr>,
      \<lparr>rows = 1, cols = 2, px = (\<lambda>i j. if j = 0 then (Fin 4, Fin 4, Fin 4) else (Fin 1, Fin 1, Fin 1))\<rparr>]
     \<lparr>rows = 1, cols = 2, px = (\<lambda>i j. if j = 0 then 1 else 0)\<rparr> = Inr (1, 2)"
  by code_simp

lemma masked_mask:
  "(if hasMask \<lparr>rows = 1, cols = 2, px = (\<lambda>i j. if j = 0 then 1 else 0)\<rparr>
    then getIndMask \<lparr>rows = 1, cols = 2, px = (\<lambda>i j. if j = 0 then 1 else 0)\<rparr>
    else [0..<1 * 2]) = [0]"
  by code_simp

lemma masked_solve:
  "solveOrthonormal [[Fin 1, Fin 0, Fin 0], [Fin 0, Fin 1, Fin 0], [Fin 0, Fin 0, Fin 1]]
     [[Fin (3/4), Fin 0, Fin 1]]
   = [[Fin (3/4), Fin 0, Fin 1]]"
  by code_simp

lemma masked_final:
  "finalM solveOrthonormal False
     [[Fin 1, Fin 0, Fin 0], [Fin 0, Fin 1, Fin 0], [Fin 0, Fin 0, Fin 1]]
     [[Fin (3/4), Fin 0, Fin 1]]
   = Inr [[Fin (3/4), Fin 0, Fin 1]]"
  by (simp add: finalM_def bdcSvdSolve_def nrows_def masked_solve)

lemma normalizeCol_triple:
  "(normalizeCol [x, y, z] ! 0, normalizeCol [x, y, z] ! 1, normalizeCol [x, y, z] ! 2)
   = (fdiv x (fnorm [x, y, z]), fdiv y (fnorm [x, y, z]), fdiv z (fnorm [x, y, z]))"
  by (simp add: normalizeCol_def)

lemma masked_norm: "fnorm [Fin (3/4), Fin 0, Fin 1] = Fin (5/4)"
  by (simp add: fnorm_def fsum_def sqrt_25_16)

text \<open>
  Claim C1, amended. For a light matrix of three columns, whenever the solve returns: the
  pixel of the normal map of each selected pixel is the column of \<open>M\<close> solved for it
  (after the robust loop in robust mode) divided by its Euclidean norm, and has norm 1
  whenever that norm is a number other than zero; the pixel of the normal map of each
  pixel that the mask does not select is (0,0,0). (A solved column of norm zero gives
  NaN, and with nine columns the normal map holds only the first three of the nine
  normalised coefficients.)
\<close>

theorem unit_normals:
  assumes "photometricStereo solve nanMax imageList intList lightMat m ambiant isRobust
           = Inr (normals, albedo)"
    and "ncols lightMat = 3"
  shows "\<exists>R C imMat imMat_gray M.
      pictDims imageList m = Inr (R, C)
    \<and> observationMatrices nanMax imageList intList m ambiant = Inr (imMat, imMat_gray)
    \<and> finalM solve isRobust lightMat imMat_gray = Inr M
    \<and> rows normals = R \<and> cols normals = C
    \<and> (\<forall>q < length (if hasMask m then getIndMask m else [0..<R * C]).
         \<exists>x y z. M ! q = [x, y, z]
           \<and> px normals ((if hasMask m then getIndMask m else [0..<R * C]) ! q mod R)
                         ((if hasMask m then getIndMask m else [0..<R * C]) ! q div R)
             = (fdiv x (fnorm [x, y, z]), fdiv y (fnorm [x, y, z]), fdiv z (fnorm [x, y, z]))
           \<and> (\<forall>n. fnorm [x, y, z] = Fin n \<and> n \<noteq> 0 \<longrightarrow>
                (\<exists>a b c.
                   px normals ((if hasMask m then getIndMask m else [0..<R * C]) ! q mod R)
                              ((if hasMask m then getIndMask m else [0..<R * C]) ! q div R)
                   = (Fin a, Fin b, Fin c)
                   \<and> a * a + b * b + c * c = 1)))
    \<and> (\<forall>i < R. \<forall>j < C.
         j * R + i \<notin> set (if hasMask m then getIndMask m else [0..<R * C]) \<longrightarrow>
         px normals i j = (Fin 0, Fin 0, Fin 0))"
proof -
  from photometricStereo_normals [OF assms(1)] obtain R C imMat imMat_gray M where
    d: "pictDims imageList m = Inr (R, C)"
    and o: "observationMatrices nanMax imageList intList m ambiant = Inr (imMat, imMat_gray)"
    and M: "finalM solve isRobust lightMat imMat_gray = Inr M"
    and rc: "rows normals = R" "cols normals = C"
    and hit: "\<forall>q < length (if hasMask m then getIndMask m else [0..<R * C]).
         (if hasMask m then getIndMask m else [0..<R * C]) ! q < R * C
         \<and> length (M ! q) = ncols lightMat \<and> 3 \<le> ncols lightMat
         \<and> px normals ((if hasMask m then getIndMask m else [0..<R * C]) ! q mod R)
                       ((if hasMask m then getIndMask m else [0..<R * C]) ! q div R)
           = (normalizeCol (M ! q) ! 0, normalizeCol (M ! q) ! 1, normalizeCol (M ! q) ! 2)"
    and other: "\<forall>i < R. \<forall>j < C.
         j * R + i \<notin> set (if hasMask m then getIndMask m else [0..<R * C]) \<longrightarrow>
         px normals i j = (Fin 0, Fin 0, Fin 0)"
    by blast
  let ?act = "if hasMask m then getIndMask m else [0..<R * C]"
  have "\<exists>x y z. M ! q = [x, y, z]
           \<and> px normals (?act ! q mod R) (?act ! q div R)
             = (fdiv x (fnorm [x, y, z]), fdiv y (fnorm [x, y, z]), fdiv z (fnorm [x, y, z]))
           \<and> (\<forall>n. fnorm [x, y, z] = Fin n \<and> n \<noteq> 0 \<longrightarrow>
                (\<exists>a b c. px normals (?act ! q mod R) (?act ! q div R) = (Fin a, Fin b, Fin c)
                   \<and> a * a + b * b + c * c = 1))"
    if q: "q < length ?act" for q
  proof -
    from hit q assms(2) have l: "length (M ! q) = 3"
      and p: "px normals (?act ! q mod R) (?act ! q div R)
           = (normalizeCol (M ! q) ! 0, normalizeCol (M ! q) ! 1, normalizeCol (M ! q) ! 2)"
      by simp_all
    from three_elements [OF l] obtain x y z where e: "M ! q = [x, y, z]" by blast
    from p have p': "px normals (?act ! q mod R) (?act ! q div R)
             = (fdiv x (fnorm [x, y, z]), fdiv y (fnorm [x, y, z]), fdiv z (fnorm [x, y, z]))"
      unfolding e normalizeCol_triple .
    have u: "\<exists>a b c. px normals (?act ! q mod R) (?act ! q div R) = (Fin a, Fin b, Fin c)
                   \<and> a * a + b * b + c * c = 1"
      if "fnorm [x, y, z] = Fin n \<and> n \<noteq> 0" for n
    proof -
      from that have f: "fnorm [x, y, z] = Fin n" and nz: "n \<noteq> 0" by blast+
      from unit_triple [OF f nz] show ?thesis unfolding p' f .
    qed
    from e p' u show ?thesis by blast
  qed
  with d o M rc other show ?thesis by blast
qed

theorem unit_normals_witness:
  "\<exists>normals albedo.
     photometricStereo solveOrthonormal propagateNaN
       [\<lparr>rows = 1, cols = 2, px = (\<lambda>i j. if j = 0 then (Fin 3, Fin 3, Fin 3) else (Fin 1, Fin 1, Fin 1))\<rparr>,
        \<lparr>rows = 1, cols = 2, px = (\<lambda>i j. if j = 0 then (Fin 0, Fin 0, Fin 0) else (Fin 1, Fin 1, Fin 1))\<rparr>,
        \<lparr>rows = 1, cols = 2, px = (\<lambda>i j. if j = 0 then (Fin 4, Fin 4, Fin 4) else (Fin 1, Fin 1, Fin 1))\<rparr>]
       [(Fin 1, Fin 1, Fin 1), (Fin 1, Fin 1, Fin 1), (Fin 1, Fin 1, Fin 1)]
       [[Fin 1, Fin 0, Fin 0], [Fin 0, Fin 1, Fin 0], [Fin 0, Fin 0, Fin 1]]
       \<lparr>rows = 1, cols = 2, px = (\<lambda>i j. if j = 0 then 1 else 0)\<rparr> None False
     = Inr (normals, albedo)
   \<and> rows normals = 1 \<and> cols normals = 2
   \<and> px normals 0 0 = (Fin (3/5), Fin 0, Fin (4/5))
   \<and> (3/5) * (3/5) + 0 * 0 + (4/5) * (4/5) = (1::real)
   \<and> px normals 0 1 = (Fin 0, Fin 0, Fin 0)"
proof -
  let ?ims = "[\<lparr>rows = 1, cols = 2, px = (\<lambda>i j. if j = 0 then (Fin 3, Fin 3, Fin 3) else (Fin 1, Fin 1, Fin 1))\<rparr>,
        \<lparr>rows = 1, cols = 2, px = (\<lambda>i j. if j = 0 then (Fin 0, Fin 0, Fin 0) else (Fin 1, Fin 1, Fin 1))\<rparr>,
        \<lparr>rows = 1, cols = 2, px = (\<lambda>i j. if j = 0 then (Fin 4, Fin 4, Fin 4) else (Fin 1, Fin 1, Fin 1))\<rparr>]"
  let ?ints = "[(Fin 1, Fin 1, Fin 1), (Fin 1, Fin 1, Fin 1), (Fin 1, Fin 1, Fin 1)]"
  let ?L = "[[Fin 1, Fin 0, Fin 0], [Fin 0, Fin 1, Fin 0], [Fin 0, Fin 0, Fin 1]]"
  let ?m = "\<lparr>rows = 1, cols = 2, px = (\<lambda>i j. if j = 0 then 1 else (0::real))\<rparr>"
  have rowsL: "nrows ?L = length ?ims" and three: "3 \<le> ncols ?L" and l3: "ncols ?L = 3"
    by (simp_all add: nrows_def ncols_def)
  from plain_returns [where solve = solveOrthonormal and L = ?L,
      OF solveOrthonormal_shape masked_obs rowsL three]
  obtain normals albedo where
    r: "photometricStereo solveOrthonormal propagateNaN ?ims ?ints ?L ?m None False
        = Inr (normals, albedo)"
    by blast
  from unit_normals [OF r l3] obtain R C imMat imMat_gray M where
    d: "pictDims ?ims ?m = Inr (R, C)"
    and o: "observationMatrices propagateNaN ?ims ?ints ?m None = Inr (imMat, imMat_gray)"
    and M: "finalM solveOrthonormal False ?L imMat_gray = Inr M"
    and rc: "rows normals = R" "cols normals = C"
    and hit: "\<forall>q < length (if hasMask ?m then getIndMask ?m else [0..<R * C]).
         \<exists>x y z. M ! q = [x, y, z]
           \<and> px normals ((if hasMask ?m then getIndMask ?m else [0..<R * C]) ! q mod R)
                         ((if hasMask ?m then getIndMask ?m else [0..<R * C]) ! q div R)
             = (fdiv x (fnorm [x, y, z]), fdiv y (fnorm [x, y, z]), fdiv z (fnorm [x, y, z]))
           \<and> (\<forall>n. fnorm [x, y, z] = Fin n \<and> n \<noteq> 0 \<longrightarrow>
                (\<exists>a b c.
                   px normals ((if hasMask ?m then getIndMask ?m else [0..<R * C]) ! q mod R)
                              ((if hasMask ?m then getIndMask ?m else [0..<R * C]) ! q div R)
                   = (Fin a, Fin b, Fin c)
                   \<and> a * a + b * b + c * c = 1))"
    and other: "\<forall>i < R. \<forall>j < C.
         j * R + i \<notin> set (if hasMask ?m then getIndMask ?m else [0..<R * C]) \<longrightarrow>
         px normals i j = (Fin 0, Fin 0, Fin 0)"
    by blast
  from d masked_dims have R: "R = 1" and C: "C = 2" by simp_all
  from o masked_obs have G: "imMat_gray = [[Fin (3/4), Fin 0, Fin 1]]" by simp
  from M masked_final have M': "M = [[Fin (3/4), Fin 0, Fin 1]]" unfolding G by simp
  note hit' = hit [unfolded R C masked_mask M']
  note other' = other [unfolded R C masked_mask]
  from hit' have "\<exists>x y z. [[Fin (3/4), Fin 0, Fin 1]] ! 0 = [x, y, z]
           \<and> px normals ([0] ! 0 mod 1) ([0] ! 0 div 1)
             = (fdiv x (fnorm [x, y, z]), fdiv y (fnorm [x, y, z]), fdiv z (fnorm [x, y, z]))"
    by fastforce
  then have a: "px normals 0 0 = (Fin (3/5), Fin 0, Fin (4/5))"
    by (auto simp: masked_norm)
  from other' have b: "px normals 0 1 = (Fin 0, Fin 0, Fin 0)" by simp
  from r rc R C a b show ?thesis by simp
qed

section \<open>The rank of the light matrix\<close>

lemma one_light_solve:
  "solveOrthonormal [[Fin 0], [Fin 0], [Fin 1]] [[Fin 1]] = [[Fin 0, Fin 0, Fin 1]]"
  by code_simp

lemma one_light_normal: "normalizeCol [Fin 0, Fin 0, Fin 1] = [Fin 0, Fin 0, Fin 1]"
  by (simp add: normalizeCol_def fnorm_def fsum_def)

lemma two_lights_obs:
  "observationMatrices propagateNaN
     [\<lparr>rows = 1, cols = 1, px = (\<lambda>i j. (Fin 3, Fin 3, Fin 3))\<rparr>,
      \<lparr>rows = 1, cols = 1, px = (\<lambda>i j. (Fin 4, Fin 4, Fin 4))\<rparr>]
     [(Fin 1, Fin 1, Fin 1), (Fin 1, Fin 1, Fin 1)]
     \<lparr>rows = 1, cols = 1, px = (\<lambda>i j. 1)\<rparr> None
   = Inr ([[Fin (3/4), Fin (3/4), Fin (3/4), Fin 1, Fin 1, Fin 1]], [[Fin (3/4), Fin 1]])"
  by code_simp

lemma two_lights_dims:
  "pictDims
     [\<lparr>rows = 1, cols = 1, px = (\<lambda>i j. (Fin 3, Fin 3, Fin 3))\<rparr>,
      \<lparr>rows = 1, cols = 1, px = (\<lambda>i j. (Fin 4, Fin 4, Fin 4))\<rparr>]
     \<lparr>rows = 1, cols = 1, px = (\<lambda>i j. 1)\<rparr> = Inr (1, 1)"
  by code_simp

lemma two_lights_solve:
  "solveOrthonormal [[Fin 1, Fin 0], [Fin 0, Fin 1], [Fin 0, Fin 0]] [[Fin (3/4), Fin 1]]
   = [[Fin (3/4), Fin 1, Fin 0]]"
  by code_simp

lemma two_lights_norm: "fnorm [Fin (3/4), Fin 1, Fin 0] = Fin (5/4)"
  by (simp add: fnorm_def fsum_def sqrt_25_16)

text \<open>
  Claim C4, as the specification states it: a light matrix without full column rank makes
  the solver signal a configuration error. One picture and the single light (0,0,1): the
  light matrix has one row and three columns, and the solve returns the normal (0,0,1).
\<close>

theorem no_rank_check_counterexample:
  "nrows [[Fin 0], [Fin 0], [Fin 1]] < ncols [[Fin 0], [Fin 0], [Fin 1]]
   \<and> normalAt (photometricStereo solveOrthonormal propagateNaN
       [\<lparr>rows = 1, cols = 1, px = (\<lambda>i j. (Fin 1, Fin 1, Fin 1))\<rparr>] [(Fin 1, Fin 1, Fin 1)]
       [[Fin 0], [Fin 0], [Fin 1]]
       \<lparr>rows = 1, cols = 1, px = (\<lambda>i j. 1)\<rparr> None False) 0 0
     = Inr (Fin 0, Fin 0, Fin 1)"
proof -
  have "normalAt (photometricStereo solveOrthonormal propagateNaN
       [\<lparr>rows = 1, cols = 1, px = (\<lambda>i j. (Fin 1, Fin 1, Fin 1))\<rparr>] [(Fin 1, Fin 1, Fin 1)]
       [[Fin 0], [Fin 0], [Fin 1]]
       \<lparr>rows = 1, cols = 1, px = (\<lambda>i j. 1)\<rparr> None False) (0 mod 1) (0 div 1)
     = Inr (normalizeCol (solveOrthonormal [[Fin 0], [Fin 0], [Fin 1]] [[Fin 1]] ! 0) ! 0,
            normalizeCol (solveOrthonormal [[Fin 0], [Fin 0], [Fin 1]] [[Fin 1]] ! 0) ! 1,
            normalizeCol (solveOrthonormal [[Fin 0], [Fin 0], [Fin 1]] [[Fin 1]] ! 0) ! 2)"
    by (rule normalAt_plain [OF solveOrthonormal_shape ambient_obs _ _ one_picture_dims])
       (simp_all add: nrows_def ncols_def hasMask_def)
  then show ?thesis
    unfolding one_light_solve by (simp add: one_light_normal nrows_def ncols_def)
qed

lemma no_picture_obs:
  "observationMatrices propagateNaN [] [] \<lparr>rows = 1, cols = 1, px = (\<lambda>i j. 1)\<rparr> None
   = Inl OutOfRange"
  by code_simp

text \<open>
  Claim C4, amended. The solver has no check of the rank of the light matrix and no error
  for it. The one exception that the solve raises, \<^verbatim>\<open>std::out_of_range\<close>, is raised exactly
  when it is raised while the observation matrices are built, which the light matrix has
  no part in. For every light matrix with one row for each picture and at least three
  columns, whatever its rank, and every least-squares solver that returns one column of
  as many coefficients as the light matrix has columns for each column of the right-hand
  side: whenever the observation matrices are built, the solve without the robust loop
  returns, and the pixel of the normal map of each selected pixel holds the first three
  coefficients of the normalised column of the solution that the least-squares solver
  returns for this light matrix.
\<close>

theorem no_rank_check:
  "((photometricStereo solve nanMax imageList intList lightMat m ambiant isRobust
       = Inl OutOfRange)
     = (observationMatrices nanMax imageList intList m ambiant = Inl OutOfRange))
   \<and> ((\<forall>b. length (solve lightMat b) = length b
             \<and> (\<forall>c \<in> set (solve lightMat b). length c = ncols lightMat))
        \<and> observationMatrices nanMax imageList intList m ambiant = Inr (imMat, imMat_gray)
        \<and> nrows lightMat = length imageList \<and> 3 \<le> ncols lightMat \<longrightarrow>
      (\<exists>normals albedo R C.
          photometricStereo solve nanMax imageList intList lightMat m ambiant False
            = Inr (normals, albedo)
        \<and> pictDims imageList m = Inr (R, C) \<and> rows normals = R \<and> cols normals = C
        \<and> finalM solve False lightMat imMat_gray = Inr (solve lightMat imMat_gray)
        \<and> (\<forall>q < length (if hasMask m then getIndMask m else [0..<R * C]).
             px normals ((if hasMask m then getIndMask m else [0..<R * C]) ! q mod R)
                        ((if hasMask m then getIndMask m else [0..<R * C]) ! q div R)
             = (normalizeCol (solve lightMat imMat_gray ! q) ! 0,
                normalizeCol (solve lightMat imMat_gray ! q) ! 1,
                normalizeCol (solve lightMat imMat_gray ! q) ! 2))
        \<and> (\<forall>i < R. \<forall>j < C.
             j * R + i \<notin> set (if hasMask m then getIndMask m else [0..<R * C]) \<longrightarrow>
             px normals i j = (Fin 0, Fin 0, Fin 0))))"
proof (intro conjI impI)
  show "(photometricStereo solve nanMax imageList intList lightMat m ambiant isRobust
       = Inl OutOfRange)
     = (observationMatrices nanMax imageList intList m ambiant = Inl OutOfRange)"
    by (rule only_exception)
next
  assume a: "(\<forall>b. length (solve lightMat b) = length b
             \<and> (\<forall>c \<in> set (solve lightMat b). length c = ncols lightMat))
        \<and> observationMatrices nanMax imageList intList m ambiant = Inr (imMat, imMat_gray)
        \<and> nrows lightMat = length imageList \<and> 3 \<le> ncols lightMat"
  show "\<exists>normals albedo R C.
          photometricStereo solve nanMax imageList intList lightMat m ambiant False
            = Inr (normals, albedo)
        \<and> pictDims imageList m = Inr (R, C) \<and> rows normals = R \<and> cols normals = C
        \<and> finalM solve False lightMat imMat_gray = Inr (solve lightMat imMat_gray)
        \<and> (\<forall>q < length (if hasMask m then getIndMask m else [0..<R * C]).
             px normals ((if hasMask m then getIndMask m else [0..<R * C]) ! q mod R)
                        ((if hasMask m then getIndMask m else [0..<R * C]) ! q div R)
             = (normalizeCol (solve lightMat imMat_gray ! q) ! 0,
                normalizeCol (solve lightMat imMat_gray ! q) ! 1,
                normalizeCol (solve lightMat imMat_gray ! q) ! 2))
        \<and> (\<forall>i < R. \<forall>j < C.
             j * R + i \<notin> set (if hasMask m then getIndMask m else [0..<R * C]) \<longrightarrow>
             px normals i j = (Fin 0, Fin 0, Fin 0))"
    by (rule plain_result [where solve = solve and L = lightMat,
          OF a [THEN conjunct1] a [THEN conjunct2, THEN conjunct1]
             a [THEN conjunct2, THEN conjunct2, THEN conjunct1]
             a [THEN conjunct2, THEN conjunct2, THEN conjunct2]])
qed

theorem no_rank_check_witness:
  "nrows [[Fin 1, Fin 0], [Fin 0, Fin 1], [Fin 0, Fin 0]]
     < ncols [[Fin 1, Fin 0], [Fin 0, Fin 1], [Fin 0, Fin 0]]
   \<and> (\<exists>normals albedo.
     photometricStereo solveOrthonormal propagateNaN
       [\<lparr>rows = 1, cols = 1, px = (\<lambda>i j. (Fin 3, Fin 3, Fin 3))\<rparr>,
        \<lparr>rows = 1, cols = 1, px = (\<lambda>i j. (Fin 4, Fin 4, Fin 4))\<rparr>]
       [(Fin 1, Fin 1, Fin 1), (Fin 1, Fin 1, Fin 1)]
       [[Fin 1, Fin 0], [Fin 0, Fin 1], [Fin 0, Fin 0]]
       \<lparr>rows = 1, cols = 1, px = (\<lambda>i j. 1)\<rparr> None False
     = Inr (normals, albedo)
     \<and> rows normals = 1 \<and> cols normals = 1
     \<and> px normals 0 0 = (Fin (3/5), Fin (4/5), Fin 0))
   \<and> photometricStereo solveOrthonormal propagateNaN [] []
        [[Fin 1, Fin 0], [Fin 0, Fin 1], [Fin 0, Fin 0]]
        \<lparr>rows = 1, cols = 1, px = (\<lambda>i j. 1)\<rparr> None True = Inl OutOfRange"
proof -
  let ?ims = "[\<lparr>rows = 1, cols = 1, px = (\<lambda>i j. (Fin 3, Fin 3, Fin 3))\<rparr>,
        \<lparr>rows = 1, cols = 1, px = (\<lambda>i j. (Fin 4, Fin 4, Fin 4))\<rparr>]"
  let ?ints = "[(Fin 1, Fin 1, Fin 1), (Fin 1, Fin 1, Fin 1)]"
  let ?L = "[[Fin 1, Fin 0], [Fin 0, Fin 1], [Fin 0, Fin 0]]"
  let ?m = "\<lparr>rows = 1, cols = 1, px = (\<lambda>i j. 1::real)\<rparr>"
  have rowsL: "nrows ?L = length ?ims" and three: "3 \<le> ncols ?L"
    and rank: "nrows ?L < ncols ?L"
    by (simp_all add: nrows_def ncols_def)
  have act: "(if hasMask ?m then getIndMask ?m else [0..<1 * 1]) = [0]"
    by (simp add: hasMask_def)
  have hyp: "(\<forall>b. length (solveOrthonormal ?L b) = length b
             \<and> (\<forall>c \<in> set (solveOrthonormal ?L b). length c = ncols ?L))
        \<and> observationMatrices propagateNaN ?ims ?ints ?m None
            = Inr ([[Fin (3/4), Fin (3/4), Fin (3/4), Fin 1, Fin 1, Fin 1]], [[Fin (3/4), Fin 1]])
        \<and> nrows ?L = length ?ims \<and> 3 \<le> ncols ?L"
    by (intro conjI solveOrthonormal_shape two_lights_obs rowsL three)
  from no_rank_check [where solve = solveOrthonormal and lightMat = ?L and isRobust = False,
      THEN conjunct2, THEN mp, OF hyp]
  obtain normals albedo R C where
    r: "photometricStereo solveOrthonormal propagateNaN ?ims ?ints ?L ?m None False
        = Inr (normals, albedo)"
    and d: "pictDims ?ims ?m = Inr (R, C)"
    and rc: "rows normals = R" "cols normals = C"
    and hit: "\<forall>q < length (if hasMask ?m then getIndMask ?m else [0..<R * C]).
         px normals ((if hasMask ?m then getIndMask ?m else [0..<R * C]) ! q mod R)
                    ((if hasMask ?m then getIndMask ?m else [0..<R * C]) ! q div R)
         = (normalizeCol (solveOrthonormal ?L [[Fin (3/4), Fin 1]] ! q) ! 0,
            normalizeCol (solveOrthonormal ?L [[Fin (3/4), Fin 1]] ! q) ! 1,
            normalizeCol (solveOrthonormal ?L [[Fin (3/4), Fin 1]] ! q) ! 2)"
    by blast
  from d two_lights_dims have R: "R = 1" and C: "C = 1" by simp_all
  note hit' = hit [unfolded R C act two_lights_solve]
  from hit' have "px normals ([0] ! 0 mod 1) ([0] ! 0 div 1)
         = (normalizeCol ([[Fin (3/4), Fin 1, Fin 0]] ! 0) ! 0,
            normalizeCol ([[Fin (3/4), Fin 1, Fin 0]] ! 0) ! 1,
            normalizeCol ([[Fin (3/4), Fin 1, Fin 0]] ! 0) ! 2)"
    by fastforce
  then have a: "px normals 0 0 = (Fin (3/5), Fin (4/5), Fin 0)"
    by (simp add: normalizeCol_def two_lights_norm)
  from no_rank_check [where solve = solveOrthonormal and nanMax = propagateNaN
      and imageList = "[]" and intList = "[]" and lightMat = ?L and m = ?m and ambiant = None
      and isRobust = True, THEN conjunct1] no_picture_obs
  have b: "photometricStereo solveOrthonormal propagateNaN [] [] ?L ?m None True
           = Inl OutOfRange"
    by simp
  from rank r rc R C a b show ?thesis by blast
qed

section \<open>Normalisation of the observations and of the albedo\<close>

lemma two_lights_raw:
  "rawObservations
     [\<lparr>rows = 1, cols = 1, px = (\<lambda>i j. (Fin 3, Fin 3, Fin 3))\<rparr>,
      \<lparr>rows = 1, cols = 1, px = (\<lambda>i j. (Fin 4, Fin 4, Fin 4))\<rparr>]
     [(Fin 1, Fin 1, Fin 1), (Fin 1, Fin 1, Fin 1)]
     \<lparr>rows = 1, cols = 1, px = (\<lambda>i j. 1)\<rparr> None
   = Inr ([[Fin 3, Fin 3, Fin 3, Fin 4, Fin 4, Fin 4]], [[Fin 3, Fin 4]])"
  by code_simp

lemma two_lights_est:
  "estimation solveOrthonormal False 2 [[Fin 1, Fin 0], [Fin 0, Fin 1], [Fin 0, Fin 0]]
     [[Fin (3/4), Fin (3/4), Fin (3/4), Fin 1, Fin 1, Fin 1]] [[Fin (3/4), Fin 1]]
     False [] 1 1
   = Inr ([[Fin (3/5), Fin (4/5), Fin 0]], [[Fin (5/4), Fin (5/4), Fin (5/4)]])"
  by (simp add: estimation_def bdcSvdSolve_def two_lights_solve nrows_def ncols_def currentIdx_def
      zeros_def normalizeCol_def two_lights_norm plainChannel_def pixelValues_channel_def
      eval_nat_numeral)

lemma two_lights_vectors:
  "vectors solveOrthonormal propagateNaN
     [\<lparr>rows = 1, cols = 1, px = (\<lambda>i j. (Fin 3, Fin 3, Fin 3))\<rparr>,
      \<lparr>rows = 1, cols = 1, px = (\<lambda>i j. (Fin 4, Fin 4, Fin 4))\<rparr>]
     [(Fin 1, Fin 1, Fin 1), (Fin 1, Fin 1, Fin 1)]
     [[Fin 1, Fin 0], [Fin 0, Fin 1], [Fin 0, Fin 0]]
     \<lparr>rows = 1, cols = 1, px = (\<lambda>i j. 1)\<rparr> None False
   = Inr ([[Fin (3/5), Fin (4/5), Fin 0]], [[Fin (5/4), Fin (5/4), Fin (5/4)]])"
proof -
  let ?ims = "[\<lparr>rows = 1, cols = 1, px = (\<lambda>i j. (Fin 3, Fin 3, Fin 3))\<rparr>,
      \<lparr>rows = 1, cols = 1, px = (\<lambda>i j. (Fin 4, Fin 4, Fin 4))\<rparr>]"
  let ?m = "\<lparr>rows = 1, cols = 1, px = (\<lambda>i j. 1::real)\<rparr>"
  have h: "hasMask ?m = False" by (simp add: hasMask_def)
  have l: "length ?ims = 2" by simp
  have s: "maskSizeOf ?m (1, 1) = 1" by (simp add: maskSizeOf_def hasMask_def)
  have n: "fst (1::nat, 1::nat) * snd (1::nat, 1::nat) = 1" by simp
  show ?thesis
    unfolding vectors_def two_lights_dims andThen_Inr two_lights_obs prod.case h l s n if_False
    by (rule two_lights_est)
qed

text \<open>
  Claim C7, as the specification states it: for observations that are not all zero the
  maximum of each normalised observation matrix is 1. One picture with the pixels
  (1, 1, 1) and (0, 0, 0), an ambient picture that is (2, 2, 2) everywhere, unit light
  intensities and no mask: the observations are -1 and -2, the division by their maximum
  -1 turns them into 1 and 2, and the maximum of both normalised matrices is 2.
\<close>

theorem normalisation_max_counterexample:
  "observationMatrices propagateNaN
     [\<lparr>rows = 1, cols = 2, px = (\<lambda>i j. if j = 0 then (Fin 1, Fin 1, Fin 1) else (Fin 0, Fin 0, Fin 0))\<rparr>]
     [(Fin 1, Fin 1, Fin 1)]
     \<lparr>rows = 1, cols = 1, px = (\<lambda>i j. 1)\<rparr>
     (Some \<lparr>rows = 1, cols = 2, px = (\<lambda>i j. (Fin 2, Fin 2, Fin 2))\<rparr>)
   = Inr ([[Fin 1, Fin 1, Fin 1], [Fin 2, Fin 2, Fin 2]], [[Fin 1], [Fin 2]])
   \<and> maxCoeff propagateNaN [[Fin 1, Fin 1, Fin 1], [Fin 2, Fin 2, Fin 2]] = Inr (Fin 2)
   \<and> maxCoeff propagateNaN [[Fin 1], [Fin 2]] = Inr (Fin 2)"
  by code_simp

text \<open>
  Claim C7, amended. Whenever the observations before the normalisation hold no NaN and
  no infinity and one of them is above zero, in the colour matrix and in the luminance
  matrix, the observation matrices are built and the largest coefficient of each is 1.
  Whenever the albedo before its normalisation holds no NaN and no infinity and one of
  its coefficients is above zero, the largest coefficient of the albedo map that the
  solve returns is 1.
\<close>

theorem normalisation_max:
  "(rawObservations imageList intList m ambiant = Inr (imMat, imMat_gray)
      \<and> positiveMax imMat \<and> positiveMax imMat_gray \<longrightarrow>
      (\<exists>C G. observationMatrices nanMax imageList intList m ambiant = Inr (C, G)
         \<and> maxCoeff nanMax C = Inr (Fin 1) \<and> maxCoeff nanMax G = Inr (Fin 1)))
   \<and> (vectors solve nanMax imageList intList lightMat m ambiant isRobust
        = Inr (normalsVect, albedoVect)
      \<and> positiveMax albedoVect
      \<and> photometricStereo solve nanMax imageList intList lightMat m ambiant isRobust
        = Inr (normals, albedo) \<longrightarrow>
      maxCoeff nanMax (pixelColumns albedo) = Inr (Fin 1))"
proof (intro conjI impI)
  assume a: "rawObservations imageList intList m ambiant = Inr (imMat, imMat_gray)
      \<and> positiveMax imMat \<and> positiveMax imMat_gray"
  then have raw: "rawObservations imageList intList m ambiant = Inr (imMat, imMat_gray)"
    and pc: "positiveMax imMat" and pg: "positiveMax imMat_gray" by blast+
  from divideByMax_positive [OF pc, of nanMax] obtain C where
    C: "divideByMax nanMax imMat = Inr C" "maxCoeff nanMax C = Inr (Fin 1)" by blast
  from divideByMax_positive [OF pg, of nanMax] obtain G where
    G: "divideByMax nanMax imMat_gray = Inr G" "maxCoeff nanMax G = Inr (Fin 1)" by blast
  have "observationMatrices nanMax imageList intList m ambiant = Inr (C, G)"
    unfolding observationMatrices_def raw sum.case prod.case C(1) G(1) andThen_Inr ..
  with C(2) G(2) show "\<exists>C G. observationMatrices nanMax imageList intList m ambiant = Inr (C, G)
         \<and> maxCoeff nanMax C = Inr (Fin 1) \<and> maxCoeff nanMax G = Inr (Fin 1)"
    by blast
next
  assume a: "vectors solve nanMax imageList intList lightMat m ambiant isRobust
        = Inr (normalsVect, albedoVect)
      \<and> positiveMax albedoVect
      \<and> photometricStereo solve nanMax imageList intList lightMat m ambiant isRobust
        = Inr (normals, albedo)"
  then have vec: "vectors solve nanMax imageList intList lightMat m ambiant isRobust
        = Inr (normalsVect, albedoVect)"
    and pa: "positiveMax albedoVect"
    and ps: "photometricStereo solve nanMax imageList intList lightMat m ambiant isRobust
        = Inr (normals, albedo)"
    by blast+
  from photometricStereo_Inr [OF ps] vec obtain dims av' where
    dims: "pictDims imageList m = Inr dims"
    and d: "divideByMax nanMax albedoVect = Inr av'"
    and r: "reshapeInImage av' dims = Inr albedo"
    by auto
  obtain R C where RC: "dims = (R, C)" by (cases dims)
  from divideByMax_positive [OF pa, of nanMax] d
  have mx: "maxCoeff nanMax av' = Inr (Fin 1)" and l: "map length av' = map length albedoVect"
    by auto
  from vectors_albedo_shape [OF vec dims [unfolded RC]] l
  have "map length av' = replicate (R * C) 3" by simp
  from pixelColumns_reshapeInImage [OF r [unfolded RC] this] mx
  show "maxCoeff nanMax (pixelColumns albedo) = Inr (Fin 1)" by simp
qed

theorem normalisation_max_witness:
  "observationMatrices propagateNaN
     [\<lparr>rows = 1, cols = 1, px = (\<lambda>i j. (Fin 3, Fin 3, Fin 3))\<rparr>,
      \<lparr>rows = 1, cols = 1, px = (\<lambda>i j. (Fin 4, Fin 4, Fin 4))\<rparr>]
     [(Fin 1, Fin 1, Fin 1), (Fin 1, Fin 1, Fin 1)]
     \<lparr>rows = 1, cols = 1, px = (\<lambda>i j. 1)\<rparr> None
   = Inr ([[Fin (3/4), Fin (3/4), Fin (3/4), Fin 1, Fin 1, Fin 1]], [[Fin (3/4), Fin 1]])
   \<and> maxCoeff propagateNaN [[Fin (3/4), Fin (3/4), Fin (3/4), Fin 1, Fin 1, Fin 1]]
     = Inr (Fin 1)
   \<and> maxCoeff propagateNaN [[Fin (3/4), Fin 1]] = Inr (Fin 1)
   \<and> maxCoeff propagateNaN [[Fin (5/4), Fin (5/4), Fin (5/4)]] = Inr (Fin (5/4))
   \<and> (\<exists>normals albedo.
        photometricStereo solveOrthonormal propagateNaN
          [\<lparr>rows = 1, cols = 1, px = (\<lambda>i j. (Fin 3, Fin 3, Fin 3))\<rparr>,
           \<lparr>rows = 1, cols = 1, px = (\<lambda>i j. (Fin 4, Fin 4, Fin 4))\<rparr>]
          [(Fin 1, Fin 1, Fin 1), (Fin 1, Fin 1, Fin 1)]
          [[Fin 1, Fin 0], [Fin 0, Fin 1], [Fin 0, Fin 0]]
          \<lparr>rows = 1, cols = 1, px = (\<lambda>i j. 1)\<rparr> None False
        = Inr (normals, albedo)
        \<and> maxCoeff propagateNaN (pixelColumns albedo) = Inr (Fin 1))"
proof -
  let ?ims = "[\<lparr>rows = 1, cols = 1, px = (\<lambda>i j. (Fin 3, Fin 3, Fin 3))\<rparr>,
        \<lparr>rows = 1, cols = 1, px = (\<lambda>i j. (Fin 4, Fin 4, Fin 4))\<rparr>]"
  let ?ints = "[(Fin 1, Fin 1, Fin 1), (Fin 1, Fin 1, Fin 1)]"
  let ?L = "[[Fin 1, Fin 0], [Fin 0, Fin 1], [Fin 0, Fin 0]]"
  let ?m = "\<lparr>rows = 1, cols = 1, px = (\<lambda>i j. 1::real)\<rparr>"
  have rowsL: "nrows ?L = length ?ims" and three: "3 \<le> ncols ?L"
    by (simp_all add: nrows_def ncols_def)
  from plain_returns [where solve = solveOrthonormal and L = ?L,
      OF solveOrthonormal_shape two_lights_obs rowsL three]
  obtain normals albedo where
    r: "photometricStereo solveOrthonormal propagateNaN ?ims ?ints ?L ?m None False
        = Inr (normals, albedo)"
    by blast
  have p1: "positiveMax [[Fin 3, Fin 3, Fin 3, Fin 4, Fin 4, Fin 4]]"
    and p2: "positiveMax [[Fin 3, Fin 4]]"
    and p3: "positiveMax [[Fin (5/4), Fin (5/4), Fin (5/4)]]"
    by (simp_all add: positiveMax_def)
  note t = normalisation_max [of ?ims ?ints ?m None
      "[[Fin 3, Fin 3, Fin 3, Fin 4, Fin 4, Fin 4]]" "[[Fin 3, Fin 4]]" propagateNaN
      solveOrthonormal ?L False "[[Fin (3/5), Fin (4/5), Fin 0]]"
      "[[Fin (5/4), Fin (5/4), Fin (5/4)]]" normals albedo]
  from t two_lights_raw p1 p2 have
    "\<exists>C G. observationMatrices propagateNaN ?ims ?ints ?m None = Inr (C, G)
         \<and> maxCoeff propagateNaN C = Inr (Fin 1) \<and> maxCoeff propagateNaN G = Inr (Fin 1)"
    by blast
  then have a: "maxCoeff propagateNaN [[Fin (3/4), Fin (3/4), Fin (3/4), Fin 1, Fin 1, Fin 1]]
        = Inr (Fin 1)"
    and b: "maxCoeff propagateNaN [[Fin (3/4), Fin 1]] = Inr (Fin 1)"
    unfolding two_lights_obs by simp_all
  from t two_lights_vectors p3 r
  have c: "maxCoeff propagateNaN (pixelColumns albedo) = Inr (Fin 1)" by blast
  have d: "maxCoeff propagateNaN [[Fin (5/4), Fin (5/4), Fin (5/4)]] = Inr (Fin (5/4))"
    by (simp add: maxCoeff_def stdmax_def)
  from two_lights_obs a b d r c show ?thesis by blast
qed

end
